theory Spec2Isabelle
  imports Complex_Main
begin

section \<open>Python string primitives\<close>

text \<open>
  Python strings are modelled as lists of \<^typ>\<open>char\<close>, read as the code points
  0..255.  The primitives below follow the behaviour of the methods of \<^verbatim>\<open>str\<close>
  that the sources call.
\<close>

definition str_replace_char :: "char \<Rightarrow> string \<Rightarrow> string \<Rightarrow> string" where
  \<comment> \<open>\<^verbatim>\<open>s.replace(c, new)\<close> for a one-character pattern \<open>c\<close>\<close>
  "str_replace_char c new s = concat (map (\<lambda>x. if x = c then new else [x]) s)"

definition endswith :: "string \<Rightarrow> string \<Rightarrow> bool" where
  "endswith s suf = (length suf \<le> length s \<and> drop (length s - length suf) s = suf)"

definition startswith :: "string \<Rightarrow> string \<Rightarrow> bool" where
  "startswith s pre = (take (length pre) s = pre)"

definition rstrip_chars :: "string \<Rightarrow> string \<Rightarrow> string" where
  \<comment> \<open>\<^verbatim>\<open>s.rstrip(chars)\<close>\<close>
  "rstrip_chars chars s = rev (dropWhile (\<lambda>c. c \<in> set chars) (rev s))"

text \<open>The exceptions that the modelled code raises, as values.\<close>

datatype error = ValueError | OperationalError | UnknownSchemaError | NotesParseError string

subsection \<open>Decimal numerals\<close>

text \<open>
  \<^verbatim>\<open>str(n)\<close> for an integer \<open>n\<close>: the decimal numeral, with a minus sign for a negative
  number.
\<close>


definition digit_char :: "nat \<Rightarrow> char" where
  "digit_char d = ''0123456789'' ! d"

fun nat_str :: "nat \<Rightarrow> string" where
  "nat_str n = (if n < 10 then [digit_char n] else nat_str (n div 10) @ [digit_char (n mod 10)])"

declare nat_str.simps [simp del]

definition int_str :: "int \<Rightarrow> string" where
  "int_str i = (if i < 0 then CHR ''-'' # nat_str (nat (- i)) else nat_str (nat i))"


text \<open>
  \<^verbatim>\<open>str.isspace\<close> on the code points below 256, which is what \<^verbatim>\<open>lstrip\<close> and \<^verbatim>\<open>rstrip\<close>
  without an argument remove.
\<close>

definition is_space :: "char \<Rightarrow> bool" where
  "is_space c = (of_char c \<in> {9, 10, 11, 12, 13, 28, 29, 30, 31, 32, 133, 160 :: nat})"

definition lstrip :: "string \<Rightarrow> string" where
  "lstrip s = dropWhile is_space s"

definition rstrip :: "string \<Rightarrow> string" where
  "rstrip s = rev (dropWhile is_space (rev s))"

text \<open>
  \<^verbatim>\<open>int(s)\<close> for a string.  \<open>None\<close> stands for \<^verbatim>\<open>ValueError\<close>.  White space around the
  numeral is removed; here that is the white space of ASCII and, of the code points
  from 128 to 255, the two that are spaces (133 and 160), but not the separators 28 to 31,
  which \<^verbatim>\<open>str.strip\<close> removes and \<^verbatim>\<open>int\<close> rejects.  One sign is allowed, and the digits may
  be grouped by single underscores.  Below 256 the only decimal digits are \<^verbatim>\<open>0\<close> to
  \<^verbatim>\<open>9\<close>.  A numeral of more than \<open>MAX_STR_DIGITS\<close> digits is rejected: this is the limit
  of the interpreter on conversions between \<^verbatim>\<open>str\<close> and \<^verbatim>\<open>int\<close>, at its default of 4300.
\<close>

definition MAX_STR_DIGITS :: nat where
  "MAX_STR_DIGITS = 4300"

definition is_int_space :: "char \<Rightarrow> bool" where
  "is_int_space c = (of_char c \<in> {9, 10, 11, 12, 13, 32, 133, 160 :: nat})"

definition is_digit :: "char \<Rightarrow> bool" where
  "is_digit c = (c \<in> set ''0123456789'')"

definition digit_val :: "char \<Rightarrow> nat" where
  "digit_val c = of_char c - 48"

definition digits_val :: "string \<Rightarrow> nat" where
  "digits_val ds = fold (\<lambda>c n. 10 * n + digit_val c) ds 0"

fun digits_underscores :: "string \<Rightarrow> bool" where
  "digits_underscores [] = False"
| "digits_underscores [c] = is_digit c"
| "digits_underscores (c # d # cs) =
     (is_digit c \<and> (if d = CHR ''_'' then digits_underscores cs else digits_underscores (d # cs)))"

definition py_int :: "string \<Rightarrow> int option" where
  "py_int s =
     (let t = rev (dropWhile is_int_space (rev (dropWhile is_int_space s)));
          neg = (t \<noteq> [] \<and> hd t = CHR ''-'');
          u = (if t \<noteq> [] \<and> hd t \<in> {CHR ''-'', CHR ''+''} then tl t else t)
      in if digits_underscores u \<and> length (filter is_digit u) \<le> MAX_STR_DIGITS
         then Some ((if neg then - 1 else 1) * int (digits_val (filter (\<lambda>c. c \<noteq> CHR ''_'') u)))
         else None)"

text \<open>\<^verbatim>\<open>s.split(sep, maxsplit)\<close> for a one-character separator.\<close>

fun split_max_acc :: "nat \<Rightarrow> char \<Rightarrow> string \<Rightarrow> string \<Rightarrow> string list" where
  "split_max_acc n sep cur [] = [cur]"
| "split_max_acc n sep cur (c # cs) =
     (if c = sep \<and> 0 < n then cur # split_max_acc (n - 1) sep [] cs
      else split_max_acc n sep (cur @ [c]) cs)"

definition split_max :: "char \<Rightarrow> nat \<Rightarrow> string \<Rightarrow> string list" where
  "split_max sep maxsplit s = split_max_acc maxsplit sep [] s"


text \<open>\<^verbatim>\<open>sep.join(xs)\<close>, and \<^verbatim>\<open>s.split(sep)\<close> for a separator of one character and of several.\<close>

fun join :: "string \<Rightarrow> string list \<Rightarrow> string" where
  "join sep [] = []"
| "join sep [x] = x"
| "join sep (x # y # ys) = x @ sep @ join sep (y # ys)"

fun split_char_acc :: "char \<Rightarrow> string \<Rightarrow> string \<Rightarrow> string list" where
  "split_char_acc sep cur [] = [cur]"
| "split_char_acc sep cur (c # cs) =
     (if c = sep then cur # split_char_acc sep [] cs else split_char_acc sep (cur @ [c]) cs)"

definition split_char :: "char \<Rightarrow> string \<Rightarrow> string list" where
  "split_char sep s = split_char_acc sep [] s"

function split_str_acc :: "string \<Rightarrow> string \<Rightarrow> string \<Rightarrow> string list" where
  "split_str_acc sep cur [] = [cur]"
| "split_str_acc sep cur (c # cs) =
     (if sep \<noteq> [] \<and> startswith (c # cs) sep
      then cur # split_str_acc sep [] (drop (length sep) (c # cs))
      else split_str_acc sep (cur @ [c]) cs)"
  by pat_completeness auto
termination
  by (relation "measure (\<lambda>(sep, cur, s). length s)") auto

definition split_str :: "string \<Rightarrow> string \<Rightarrow> string list" where
  "split_str sep s = split_str_acc sep [] s"


definition truthy :: "string option \<Rightarrow> bool" where
  \<comment> \<open>the truth value of a value that is \<^verbatim>\<open>None\<close> or a string\<close>
  "truthy v = (case v of None \<Rightarrow> False | Some s \<Rightarrow> s \<noteq> [])"

section \<open>utils.py: file names\<close>

definition FILENAME_REPLACEMENTS :: "(string \<times> string) list" where
  "FILENAME_REPLACEMENTS =
     [([CHR ''?'', CHR '':'', CHR 0x22], ''''),
      (''<'', ''(''),
      (''>'', '')''),
      ([CHR ''/'', CHR 0x5C, CHR ''|'', CHR ''*''], ''-'')]"

definition replace_all_chars :: "string \<times> string \<Rightarrow> string \<Rightarrow> string" where
  \<comment> \<open>the inner loop \<^verbatim>\<open>for char in old: fname = fname.replace(char, new)\<close>\<close>
  "replace_all_chars = (\<lambda>(old, new) fname. fold (\<lambda>c f. str_replace_char c new f) old fname)"

definition sanitize_filename :: "string \<Rightarrow> string" where
  "sanitize_filename fname =
     (let fname1 = fold replace_all_chars FILENAME_REPLACEMENTS fname
      in if endswith fname1 ''.'' then rstrip_chars '' .'' fname1 else fname1)"

definition forbidden_chars :: "char list" where
  "forbidden_chars =
     [CHR ''?'', CHR '':'', CHR 0x22, CHR ''<'', CHR ''>'', CHR ''/'', CHR 0x5C, CHR ''|'', CHR ''*'']"


section \<open>utils.py: directory allocation\<close>

text \<open>
  \<^verbatim>\<open>DirectoryCache._cache\<close> is a class-level dictionary from paths to time stamps.
  Every call of \<^verbatim>\<open>DirectoryCache.insert\<close> reads the clock (\<^verbatim>\<open>time.time()\<close>); the model
  takes the clock as a function from the number of readings made so far to the reading,
  idealised as a real number, and counts the readings in the state.  The file system is
  the predicate \<open>exists\<close> (\<^verbatim>\<open>Path.exists\<close>).  A path is its parent directory and its
  final component; \<^verbatim>\<open>with_name\<close> raises \<^verbatim>\<open>ValueError\<close> for a path with an empty name and
  for an invalid new name.  The loop of \<^verbatim>\<open>next_unique_directory\<close> need not end (every
  candidate may exist on disk), so it is a partial function into \<open>option\<close>.
\<close>

definition CACHE_LIFETIME :: real where
  "CACHE_LIFETIME = 60 * 60"

datatype path = Path (parent: string) (name: string)

definition with_name :: "path \<Rightarrow> string \<Rightarrow> error + path" where
  "with_name p n =
     (if name p = [] then Inl ValueError
      else if n = [] \<or> CHR ''/'' \<in> set n \<or> n = ''.'' then Inl ValueError
      else Inr (Path (parent p) n))"

record dir_state =
  cache :: "path \<rightharpoonup> real"
  ticks :: nat

definition stamp :: "dir_state \<Rightarrow> path \<Rightarrow> real" where
  \<comment> \<open>\<^verbatim>\<open>cls._cache.get(path, 0)\<close>\<close>
  "stamp s p = (case cache s p of None \<Rightarrow> 0 | Some t \<Rightarrow> t)"

definition cache_insert :: "(nat \<Rightarrow> real) \<Rightarrow> path \<Rightarrow> dir_state \<Rightarrow> bool \<times> dir_state" where
  "cache_insert clock p s =
     (let now = clock (ticks s);
          s1 = s\<lparr>ticks := Suc (ticks s)\<rparr>
      in if stamp s p + CACHE_LIFETIME < now
         then (True, s1\<lparr>cache := (cache s)(p \<mapsto> now)\<rparr>)
         else (False, s1))"

text \<open>
  The loop \<^verbatim>\<open>while not DirectoryCache.insert(out_path) or out_path.exists()\<close>: the
  insertion is attempted first, so a candidate that exists on disk is reserved all the same.
\<close>

partial_function (option) unique_loop ::
  "(nat \<Rightarrow> real) \<Rightarrow> (path \<Rightarrow> bool) \<Rightarrow> path \<Rightarrow> path \<Rightarrow> nat \<Rightarrow> dir_state
    \<Rightarrow> ((error + path) \<times> dir_state) option" where
  "unique_loop clock exists p out_path sfx s =
     (case cache_insert clock out_path s of
        (inserted, s1) \<Rightarrow>
          if \<not> inserted \<or> exists out_path
          then (case with_name p (name p @ '' ('' @ nat_str (Suc sfx) @ '')'') of
                  Inl e \<Rightarrow> Some (Inl e, s1)
                | Inr out_path' \<Rightarrow> unique_loop clock exists p out_path' (Suc sfx) s1)
          else Some (Inr out_path, s1))"

definition next_unique_directory ::
  "(nat \<Rightarrow> real) \<Rightarrow> (path \<Rightarrow> bool) \<Rightarrow> path \<Rightarrow> dir_state
    \<Rightarrow> ((error + path) \<times> dir_state) option" where
  "next_unique_directory clock exists p s = unique_loop clock exists p p 0 s"


declare unique_loop.simps [code]

section \<open>db/\_\_init\_\_.py: schema validation\<close>

text \<open>
  The store, as far as \<^verbatim>\<open>_validate_schema\<close> looks at it: the rows \<open>(id, version, ctime)\<close> of
  the table \<^verbatim>\<open>meta\<close>, or \<open>None\<close> when there is no such table, and the names of the other
  tables.  The connection is opened with \<^verbatim>\<open>isolation_level=None\<close>, so every statement is
  committed as it is executed.  \<open>ctime\<close> is the clock reading in microseconds.
\<close>


definition SCHEMA_VERSION :: int where
  "SCHEMA_VERSION = 1"

datatype sql_value = Null | Integer int | Text string

record database =
  meta :: "(sql_value \<times> sql_value \<times> sql_value) list option"
  tables :: "string list"

text \<open>
  Modelled from the spec: the script \<^verbatim>\<open>setup_script.sql\<close> is not among the sources.  By the
  logical schema of the specification it creates the table \<^verbatim>\<open>meta\<close>, empty, and the tables
  and the full-text index for songs, sync metas and resource files.
\<close>

definition setup_script :: "database \<Rightarrow> database" where
  "setup_script db =
     db\<lparr>meta := Some [],
        tables := tables db @ [''usdb_song'', ''sync_meta'', ''resource_file'',
                    ''active_sync_meta'', ''fts_usdb_song'']\<rparr>"

text \<open>\<^verbatim>\<open>INSERT INTO meta (id, version, ctime) VALUES (1, ?, ?)\<close>\<close>

definition insert_meta :: "sql_value \<times> sql_value \<times> sql_value \<Rightarrow> database \<Rightarrow> error + database" where
  "insert_meta row db =
     (case meta db of
        None \<Rightarrow> Inl OperationalError
      | Some rows \<Rightarrow> Inr (db\<lparr>meta := Some (rows @ [row])\<rparr>))"

text \<open>
  \<^verbatim>\<open>_validate_schema\<close>: the result is the exception raised, if any, and the store
  afterwards.  \<^verbatim>\<open>fetchone\<close> yields the first row of \<^verbatim>\<open>SELECT version FROM meta\<close>.
\<close>

definition validate_schema :: "int \<Rightarrow> database \<Rightarrow> (error + unit) \<times> database" where
  "validate_schema ctime db =
     (case meta db of
        None \<Rightarrow>
          (let db1 = setup_script db in
           case insert_meta (Integer 1, Integer SCHEMA_VERSION, Integer ctime) db1 of
             Inl e \<Rightarrow> (Inl e, db1)
           | Inr db2 \<Rightarrow> (Inr (), db2))
      | Some rows \<Rightarrow>
          (case rows of
             [] \<Rightarrow> (Inl UnknownSchemaError, db)
           | (row_id, version, row_ctime) # _ \<Rightarrow>
               if version \<noteq> Integer SCHEMA_VERSION then (Inl UnknownSchemaError, db)
               else (Inr (), db)))"


section \<open>db/\_\_init\_\_.py: the search builder\<close>

text \<open>
  \<^verbatim>\<open>SearchBuilder\<close> assembles the text of a query and, separately, the parameters bound to
  its placeholders.  The field \<^verbatim>\<open>text\<close> is called \<open>search_text\<close> here.  The fixed head of the
  statement (\<^verbatim>\<open>select_song_id.sql\<close>) is not among the sources and is a parameter of
  \<open>statement\<close>.
\<close>

datatype SongOrder = NONE | SONG_ID | ARTIST | TITLE | EDITION | LANGUAGE | GOLDEN_NOTES
  | RATING | VIEWS | PINNED | TXT | AUDIO | VIDEO | COVER | BACKGROUND | SYNC_TIME

fun order_value :: "SongOrder \<Rightarrow> string option" where
  "order_value NONE = None"
| "order_value SONG_ID = Some ''usdb_song.song_id''"
| "order_value ARTIST = Some ''usdb_song.artist''"
| "order_value TITLE = Some ''usdb_song.title''"
| "order_value EDITION = Some ''usdb_song.edition''"
| "order_value LANGUAGE = Some ''usdb_song.language''"
| "order_value GOLDEN_NOTES = Some ''usdb_song.golden_notes''"
| "order_value RATING = Some ''usdb_song.rating''"
| "order_value VIEWS = Some ''usdb_song.views''"
| "order_value PINNED = Some ''sync_meta.pinned''"
| "order_value TXT = Some ''txt.sync_meta_id IS NULL''"
| "order_value AUDIO = Some ''audio.sync_meta_id IS NULL''"
| "order_value VIDEO = Some ''video.sync_meta_id IS NULL''"
| "order_value COVER = Some ''cover.sync_meta_id IS NULL''"
| "order_value BACKGROUND = Some ''background.sync_meta_id IS NULL''"
| "order_value SYNC_TIME = Some ''sync_meta.mtime''"

record SearchBuilder =
  order :: SongOrder
  descending :: bool
  search_text :: string
  artists :: "string list"
  titles :: "string list"
  editions :: "string list"
  languages :: "string list"
  golden_notes :: "bool option"
  ratings :: "int list"
  views :: "(int \<times> int option) list"
  downloaded :: "bool option"

definition default_search :: SearchBuilder where
  "default_search = \<lparr>order = NONE, descending = False, search_text = [], artists = [],
     titles = [], editions = [], languages = [], golden_notes = None, ratings = [],
     views = [], downloaded = None\<rparr>"

definition in_values_clause :: "string \<Rightarrow> 'a list \<Rightarrow> string" where
  "in_values_clause attribute values =
     attribute @ '' IN ('' @ join '', '' (map (\<lambda>c. [c]) (replicate (length values) (CHR ''?''))) @ '')''"

definition in_ranges_clause :: "string \<Rightarrow> (int \<times> int option) list \<Rightarrow> string" where
  "in_ranges_clause attribute values =
     join '' OR ''
       (map (\<lambda>val. attribute @ '' >= ?''
                @ (case snd val of None \<Rightarrow> [] | Some _ \<Rightarrow> '' AND '' @ attribute @ '' < ?''))
          values)"

definition fts5_phrases :: "string \<Rightarrow> string" where
  "fts5_phrases txt =
     join '' '' (map (\<lambda>s. CHR 0x22 # s @ [CHR 0x22])
                  (filter (\<lambda>s. s \<noteq> []) (split_char (CHR '' '') (str_replace_char (CHR 0x22) [] txt))))"

definition filters :: "SearchBuilder \<Rightarrow> string list" where
  "filters sb =
     (if fts5_phrases (search_text sb) \<noteq> [] then [''fts_usdb_song MATCH ?''] else [])
     @ (if artists sb \<noteq> [] then [in_values_clause ''usdb_song.artist'' (artists sb)] else [])
     @ (if titles sb \<noteq> [] then [in_values_clause ''usdb_song.title'' (titles sb)] else [])
     @ (if editions sb \<noteq> [] then [in_values_clause ''usdb_song.edition'' (editions sb)] else [])
     @ (if languages sb \<noteq> [] then [in_values_clause ''usdb_song.language'' (languages sb)] else [])
     @ (if golden_notes sb \<noteq> None then [''usdb_song.golden_notes = ?''] else [])
     @ (if ratings sb \<noteq> [] then [in_values_clause ''usdb_song.rating'' (ratings sb)] else [])
     @ (if views sb \<noteq> [] then [in_ranges_clause ''usdb_song.views'' (views sb)] else [])
     @ (case downloaded sb of
          None \<Rightarrow> []
        | Some d \<Rightarrow> [''sync_meta.sync_meta_id IS '' @ (if d then ''NOT '' else []) @ ''NULL''])"

definition where_clause :: "SearchBuilder \<Rightarrow> string" where
  "where_clause sb =
     (let wh = join '' AND '' (filters sb) in if wh \<noteq> [] then '' WHERE '' @ wh else [])"

definition order_by_clause :: "SearchBuilder \<Rightarrow> string" where
  "order_by_clause sb =
     (case order_value (order sb) of
        None \<Rightarrow> []
      | Some v \<Rightarrow> '' ORDER BY '' @ v @ '' '' @ (if descending sb then ''DESC'' else ''ASC''))"

text \<open>Parameters are given as the values that the driver binds: a \<^verbatim>\<open>bool\<close> is bound as 0 or 1.\<close>

definition parameters :: "SearchBuilder \<Rightarrow> sql_value list" where
  "parameters sb =
     (if fts5_phrases (search_text sb) \<noteq> [] then [Text (fts5_phrases (search_text sb))] else [])
     @ map Text (artists sb) @ map Text (titles sb) @ map Text (editions sb)
     @ map Text (languages sb)
     @ (case golden_notes sb of None \<Rightarrow> [] | Some g \<Rightarrow> [Integer (if g then 1 else 0)])
     @ map Integer (ratings sb)
     @ concat (map (\<lambda>(min_views, max_views).
                 Integer min_views # (case max_views of None \<Rightarrow> [] | Some m \<Rightarrow> [Integer m]))
               (views sb))"

definition statement :: "string \<Rightarrow> SearchBuilder \<Rightarrow> string" where
  "statement select_from sb = select_from @ where_clause sb @ order_by_clause sb"

subsection \<open>How SQLite reads the clause\<close>

text \<open>
  Modelled from the grammar of SQLite for the fragment that the builder emits: a clause is
  a disjunction of conjunctions of atoms, since \<^verbatim>\<open>AND\<close> binds tighter than \<^verbatim>\<open>OR\<close>; the
  placeholders are bound to the parameters from left to right.  A row gives a value to
  every column; \<open>fts\<close> says whether a row matches a full-text query.
\<close>

type_synonym row = "string \<Rightarrow> sql_value"

text \<open>
  An atom is read from its words.  The comparisons are modelled on integers only, where
  the filters use them; \<open>None\<close> stands for anything outside this fragment, and for a
  placeholder without a parameter.
\<close>

definition sql_eq :: "sql_value \<Rightarrow> sql_value \<Rightarrow> bool" where
  "sql_eq a b = (a \<noteq> Null \<and> a = b)"

fun eval_atom ::
  "(string \<Rightarrow> row \<Rightarrow> bool) \<Rightarrow> row \<Rightarrow> string list \<Rightarrow> sql_value list
    \<Rightarrow> (bool \<times> sql_value list) option" where
  "eval_atom fts r (col # op # rest) ps =
     (if op = ''IN'' then
        (if rest \<noteq> [] \<and> length rest \<le> length ps
            \<and> join '' '' rest = ''('' @ join '', '' (replicate (length rest) ''?'') @ '')''
         then Some (\<exists>p \<in> set (take (length rest) ps). sql_eq (r col) p, drop (length rest) ps)
         else None)
      else if op = ''IS'' then
        (if rest = [''NULL''] then Some (r col = Null, ps)
         else if rest = [''NOT'', ''NULL''] then Some (r col \<noteq> Null, ps)
         else None)
      else if rest = [''?''] then
        (case ps of
           [] \<Rightarrow> None
         | p # ps' \<Rightarrow>
             if op = ''MATCH'' then (case p of Text q \<Rightarrow> Some (fts q r, ps') | _ \<Rightarrow> None)
             else if op = ''='' then Some (sql_eq (r col) p, ps')
             else if op = ''>='' then
               (case (r col, p) of (Integer x, Integer y) \<Rightarrow> Some (y \<le> x, ps') | _ \<Rightarrow> None)
             else if op = ''<'' then
               (case (r col, p) of (Integer x, Integer y) \<Rightarrow> Some (x < y, ps') | _ \<Rightarrow> None)
             else None)
      else None)"
| "eval_atom fts r ws ps = None"

fun eval_and ::
  "(string \<Rightarrow> row \<Rightarrow> bool) \<Rightarrow> row \<Rightarrow> string list \<Rightarrow> sql_value list
    \<Rightarrow> (bool \<times> sql_value list) option" where
  "eval_and fts r [] ps = Some (True, ps)"
| "eval_and fts r (atom # atoms) ps =
     (case eval_atom fts r (split_char (CHR '' '') atom) ps of
        None \<Rightarrow> None
      | Some (b, ps') \<Rightarrow>
          (case eval_and fts r atoms ps' of
             None \<Rightarrow> None
           | Some (b', ps'') \<Rightarrow> Some (b \<and> b', ps'')))"

fun eval_or ::
  "(string \<Rightarrow> row \<Rightarrow> bool) \<Rightarrow> row \<Rightarrow> string list \<Rightarrow> sql_value list
    \<Rightarrow> (bool \<times> sql_value list) option" where
  "eval_or fts r [] ps = Some (False, ps)"
| "eval_or fts r (term # terms) ps =
     (case eval_and fts r (split_str '' AND '' term) ps of
        None \<Rightarrow> None
      | Some (b, ps') \<Rightarrow>
          (case eval_or fts r terms ps' of
             None \<Rightarrow> None
           | Some (b', ps'') \<Rightarrow> Some (b \<or> b', ps'')))"

definition sqlite_where ::
  "(string \<Rightarrow> row \<Rightarrow> bool) \<Rightarrow> string \<Rightarrow> sql_value list \<Rightarrow> row \<Rightarrow> bool option" where
  "sqlite_where fts clause ps r =
     (if clause = [] then (if ps = [] then Some True else None)
      else if startswith clause '' WHERE '' then
        (case eval_or fts r (split_str '' OR '' (drop 7 clause)) ps of
           Some (b, []) \<Rightarrow> Some b
         | _ \<Rightarrow> None)
      else None)"

text \<open>
  What the specification asks of a row: every filter that is present holds, and a range
  holds from its lower bound up to, not including, its upper bound, if it has one.
\<close>

definition in_range :: "sql_value \<Rightarrow> int \<times> int option \<Rightarrow> bool" where
  "in_range v bounds =
     (case v of
        Integer n \<Rightarrow> fst bounds \<le> n \<and> (case snd bounds of None \<Rightarrow> True | Some hi \<Rightarrow> n < hi)
      | _ \<Rightarrow> False)"

definition matches_all :: "(string \<Rightarrow> row \<Rightarrow> bool) \<Rightarrow> SearchBuilder \<Rightarrow> row \<Rightarrow> bool" where
  "matches_all fts sb r =
     ((fts5_phrases (search_text sb) = [] \<or> fts (fts5_phrases (search_text sb)) r)
      \<and> (artists sb = [] \<or> list_ex (\<lambda>a. sql_eq (r ''usdb_song.artist'') (Text a)) (artists sb))
      \<and> (titles sb = [] \<or> list_ex (\<lambda>a. sql_eq (r ''usdb_song.title'') (Text a)) (titles sb))
      \<and> (editions sb = [] \<or> list_ex (\<lambda>a. sql_eq (r ''usdb_song.edition'') (Text a)) (editions sb))
      \<and> (languages sb = [] \<or> list_ex (\<lambda>a. sql_eq (r ''usdb_song.language'') (Text a)) (languages sb))
      \<and> (case golden_notes sb of
            None \<Rightarrow> True
          | Some g \<Rightarrow> sql_eq (r ''usdb_song.golden_notes'') (Integer (if g then 1 else 0)))
      \<and> (ratings sb = [] \<or> list_ex (\<lambda>n. sql_eq (r ''usdb_song.rating'') (Integer n)) (ratings sb))
      \<and> (views sb = [] \<or> list_ex (in_range (r ''usdb_song.views'')) (views sb))
      \<and> (case downloaded sb of
            None \<Rightarrow> True
          | Some d \<Rightarrow> (r ''sync_meta.sync_meta_id'' \<noteq> Null) = d))"

text \<open>A search for rating 5 within two ranges of views, a row outside the rating, and the
  search of the specification's example.\<close>

definition no_fts :: "string \<Rightarrow> row \<Rightarrow> bool" where
  "no_fts q r = False"

definition rated_and_viewed :: SearchBuilder where
  "rated_and_viewed = default_search\<lparr>ratings := [5], views := [(0, Some 100), (200, None)]\<rparr>"

definition popular_row :: row where
  "popular_row col =
     (if col = ''usdb_song.artist'' then Text ''ABBA''
      else if col = ''usdb_song.rating'' then Integer 1
      else if col = ''usdb_song.views'' then Integer 300
      else Null)"

definition queen_five :: SearchBuilder where
  "queen_five = default_search\<lparr>artists := [''Queen''], ratings := [5]\<rparr>"


section \<open>song\_loader.py: duet note reassignment\<close>

text \<open>
  The block of \<^verbatim>\<open>SongLoader.run\<close> (and, word for word, of \<^verbatim>\<open>Worker.run\<close>) that is run for
  a duet:
  \<^verbatim>\<open>
  notes.insert(0, "P1\n")
  prev_start = 0
  for idx, line in enumerate(notes):
      if line.startswith((":", "*", "F", "R", "G")):
          _type, start, _duration, _pitch, *_syllable = line.split(" ", maxsplit=4)
          if int(start) < prev_start:
              notes.insert(idx, "P2\n")
          prev_start = int(start)
  \<close>
  The loop walks the list by index while inserting into it: after an insertion at \<open>idx\<close>
  the line just examined sits at \<open>idx + 1\<close> and is examined once more, now with
  \<open>prev_start\<close> equal to its own start.  A line with fewer than four fields, or whose second
  field is no integer, raises \<^verbatim>\<open>ValueError\<close>.
\<close>

definition list_insert :: "nat \<Rightarrow> 'a \<Rightarrow> 'a list \<Rightarrow> 'a list" where
  \<comment> \<open>\<^verbatim>\<open>xs.insert(i, x)\<close> for \<open>i\<close> within the list\<close>
  "list_insert i x xs = take i xs @ x # drop i xs"

definition is_note_line :: "string \<Rightarrow> bool" where
  "is_note_line line = (\<exists>p \<in> set ['':'', ''*'', ''F'', ''R'', ''G'']. startswith line p)"

definition note_start :: "string \<Rightarrow> error + int" where
  "note_start line =
     (case split_max (CHR '' '') 4 line of
        type # start # duration # pitch # syllable \<Rightarrow>
          (case py_int start of None \<Rightarrow> Inl ValueError | Some v \<Rightarrow> Inr v)
      | _ \<Rightarrow> Inl ValueError)"

text \<open>
  For the termination of the loop: whether the line at \<open>idx\<close> is a note that starts before
  \<open>prev_start\<close>, and so triggers an insertion.
\<close>

definition regresses :: "nat \<Rightarrow> int \<Rightarrow> string list \<Rightarrow> bool" where
  "regresses idx prev_start notes =
     (idx < length notes \<and> is_note_line (notes ! idx) \<and>
      (case note_start (notes ! idx) of Inr start \<Rightarrow> start < prev_start | Inl _ \<Rightarrow> False))"

function duet_loop :: "nat \<Rightarrow> int \<Rightarrow> string list \<Rightarrow> error + string list" where
  "duet_loop idx prev_start notes =
     (if idx < length notes then
        (let line = notes ! idx in
         if is_note_line line then
           (case note_start line of
              Inl e \<Rightarrow> Inl e
            | Inr start \<Rightarrow>
                duet_loop (Suc idx) start
                  (if start < prev_start then list_insert idx ''P2\<newline>'' notes else notes))
         else duet_loop (Suc idx) prev_start notes)
      else Inr notes)"
  by pat_completeness auto
termination
proof (relation "measure (\<lambda>(idx, prev_start, notes).
          2 * (length notes - idx) + (if regresses idx prev_start notes then 1 else 0))",
       goal_cases)
  case 1
  then show ?case by simp
next
  case (2 idx prev_start ns line start)
  then show ?case
    by (auto simp: regresses_def list_insert_def nth_append min_def)
next
  case (3 idx prev_start ns line)
  then show ?case by (auto simp: regresses_def)
qed

declare duet_loop.simps [simp del]

definition reassign_players :: "string list \<Rightarrow> error + string list" where
  "reassign_players notes = duet_loop 0 0 (''P1\<newline>'' # notes)"

text \<open>
  Two descriptions of the result, to compare the loop with.  The first marks a note that
  starts before the note preceding it (before beat 0 for the first note).  The second
  follows the words of the specification: it keeps the greatest start beat seen so far and
  marks every note that starts before it.
\<close>

fun mark_regressions :: "int \<Rightarrow> string list \<Rightarrow> string list" where
  "mark_regressions prev_start [] = []"
| "mark_regressions prev_start (line # rest) =
     (if is_note_line line then
        (case note_start line of
           Inr start \<Rightarrow>
             (if start < prev_start then [''P2\<newline>'', line] else [line])
               @ mark_regressions start rest
         | Inl _ \<Rightarrow> line # mark_regressions prev_start rest)
      else line # mark_regressions prev_start rest)"

fun mark_below_maximum :: "int option \<Rightarrow> string list \<Rightarrow> string list" where
  "mark_below_maximum seen [] = []"
| "mark_below_maximum seen (line # rest) =
     (if is_note_line line then
        (case note_start line of
           Inr start \<Rightarrow>
             (if (case seen of None \<Rightarrow> False | Some m \<Rightarrow> start < m)
              then [''P2\<newline>'', line] else [line])
               @ mark_below_maximum
                   (Some (case seen of None \<Rightarrow> start | Some m \<Rightarrow> max m start)) rest
         | Inl _ \<Rightarrow> line # mark_below_maximum seen rest)
      else line # mark_below_maximum seen rest)"

text \<open>Five notes with the start beats 0, 4, 8, 2, 6.\<close>

definition beats_example :: "string list" where
  "beats_example =
     ['': 0 2 60 Some'', '': 4 2 62 bo'', '': 8 2 64 dy'', '': 2 2 57 to'', '': 6 2 59 love'']"

section \<open>song\_loader.py: the audio stage\<close>

text \<open>
  The audio stage of \<^verbatim>\<open>SongLoader.run\<close> (lines 104 to 130).  The header is the dictionary
  built from the downloaded text; \<open>audio_options\<close> is \<^verbatim>\<open>self.options.audio_options\<close>
  (\<open>None\<close> when audio is switched off); \<open>tag_audio\<close> and \<open>tag_video\<close> are the fields
  \<^verbatim>\<open>meta_tags.audio\<close> and \<^verbatim>\<open>meta_tags.video\<close>; \<open>download_video\<close> is the external fetcher,
  which returns the extension of the file it wrote, or nothing; \<open>filename\<close> is the base
  name computed earlier.  The log is the list of records written so far.
\<close>

datatype level = INFO | WARNING | ERROR

type_synonym header = "string \<rightharpoonup> string"

definition audio_stage ::
  "string \<Rightarrow> 'o option \<Rightarrow> string option \<Rightarrow> string option \<Rightarrow> (string \<Rightarrow> 'o \<Rightarrow> string option)
    \<Rightarrow> string \<Rightarrow> header \<Rightarrow> (level \<times> string) list \<Rightarrow> header \<times> (level \<times> string) list" where
  "audio_stage song_id audio_options tag_audio tag_video download_video filename header logged =
     (let log1 = logged @ [(INFO, ''#'' @ song_id @ '': (2/6) downloading audio file...'')] in
      case audio_options of
        None \<Rightarrow> (header, log1)
      | Some audio_opts \<Rightarrow>
          (let audio_resource = (if truthy tag_audio then tag_audio else tag_video) in
           if truthy audio_resource then
             (let ext = download_video (the audio_resource) audio_opts;
                  (header1, log2) =
                    (if truthy ext
                     then (header(''#MP3'' \<mapsto> filename @ ''.'' @ the ext),
                           log1 @ [(INFO, ''#'' @ song_id @ '': (2/6) Success.'')])
                     else (header, log1 @ [(ERROR, ''#'' @ song_id @ '': (2/6) Failed.'')]));
                  header2 = (if truthy (header1 ''#VIDEO'')
                             then header1(''#VIDEO'' := None) else header1)
              in (header2, log2))
           else (header, log1 @ [(WARNING, CHR 0x09 # ''- no audio resource in #VIDEO tag'')])))"

text \<open>A header as downloaded, and a fetcher that fails.\<close>

definition failing_download :: "string \<Rightarrow> unit \<Rightarrow> string option" where
  "failing_download resource opts = None"

definition raw_header :: header where
  "raw_header = [''#ARTIST'' \<mapsto> ''Queen'', ''#TITLE'' \<mapsto> ''Somebody to Love'',
                 ''#VIDEO'' \<mapsto> ''v=kijpcUv-b8M,co=cover.jpg'']"

section \<open>notes\_parser.py: headers\<close>

text \<open>
  The parser consumes a list of text lines, which it shortens in place, and writes
  warnings to a logger.  Both are threaded through the model: a parsing function takes
  the lines and the log and returns its result, or the exception it raises, together with
  the lines left and the log afterwards.  Every message of this module is a warning; the
  one that prints the list of left-over lines keeps the list instead of its rendering.
\<close>

datatype log_entry = Warning string | TrailingTextWarning "string list"

type_synonym 'a parsed = "(error + 'a) \<times> string list \<times> log_entry list"

text \<open>
  \<^verbatim>\<open>str.lower\<close> and \<^verbatim>\<open>str.upper\<close> on the code points below 256.  \<open>lower\<close> is exact there.
  \<open>upper\<close> is exact on all of them but three, which Python maps out of this range or to two
  letters (181, 223 and 255) and which are left as they are here; no statement below
  depends on them.
\<close>

definition lower_char :: "char \<Rightarrow> char" where
  "lower_char c =
     (let n = of_char c :: nat
      in if (65 \<le> n \<and> n \<le> 90) \<or> (192 \<le> n \<and> n \<le> 222 \<and> n \<noteq> 215) then char_of (n + 32) else c)"

definition upper_char :: "char \<Rightarrow> char" where
  "upper_char c =
     (let n = of_char c :: nat
      in if (97 \<le> n \<and> n \<le> 122) \<or> (224 \<le> n \<and> n \<le> 254 \<and> n \<noteq> 247) then char_of (n - 32) else c)"

definition lower :: "string \<Rightarrow> string" where
  "lower s = map lower_char s"

definition upper :: "string \<Rightarrow> string" where
  "upper s = map upper_char s"

definition removeprefix :: "string \<Rightarrow> string \<Rightarrow> string" where
  "removeprefix pre s = (if startswith s pre then drop (length pre) s else s)"

text \<open>
  A dictionary that is iterated in the order of insertion is a list of pairs with distinct
  keys; \<open>dict_set d k v\<close> is the assignment \<^verbatim>\<open>d[k] = v\<close>.
\<close>

fun dict_set :: "('k \<times> 'v) list \<Rightarrow> 'k \<Rightarrow> 'v \<Rightarrow> ('k \<times> 'v) list" where
  "dict_set [] k v = [(k, v)]"
| "dict_set ((k', v') # d) k v = (if k' = k then (k, v) # d else (k', v') # dict_set d k v)"

text \<open>
  The floating-point numbers of Python and the conversions \<^verbatim>\<open>float(s)\<close> and \<^verbatim>\<open>str(x)\<close> are
  not part of the repository.  The model takes them as a parameter \<open>F\<close>: a type \<open>'f\<close> with
  the conversion from a string (\<open>None\<close> for \<^verbatim>\<open>ValueError\<close>), the conversion to a string, and
  the number \<^verbatim>\<open>0.0\<close>.
\<close>

record 'f pyfloat =
  float_of :: "string \<Rightarrow> 'f option"
  float_str :: "'f \<Rightarrow> string"
  float_zero :: 'f

text \<open>
  \<^verbatim>\<open>kwargs\<close>, the dictionary from which \<^verbatim>\<open>Headers.parse\<close> builds its result: the entry
  \<^verbatim>\<open>"unknown"\<close>, itself a dictionary, and the entries named after fields, whose values are
  strings, floats or integers.
\<close>

datatype 'f header_value = StrV string | FloatV 'f | IntV int

record 'f kwargs =
  kw_unknown :: "(string \<times> string) list"
  kw_named :: "string \<rightharpoonup> 'f header_value"

record 'f Headers =
  unknown :: "(string \<times> string) list"
  title :: string
  artist :: string
  bpm :: 'f
  gap :: 'f
  language :: "string option"
  edition :: "string option"
  genre :: "string option"
  album :: "string option"
  year :: "string option"
  creator :: "string option"
  mp3 :: "string option"
  cover :: "string option"
  background :: "string option"
  video :: "string option"
  videogap :: "'f option"
  start :: "'f option"
  "end" :: "'f option"
  previewstart :: "'f option"
  relative :: "string option"
  p1 :: "string option"
  p2 :: "string option"
  medleystartbeat :: "int option"
  medleyendbeat :: "int option"
  encoding :: "string option"
  comment :: "string option"
  resolution :: "string option"

text \<open>\<^verbatim>\<open>_set_header_value\<close>, with the three groups of names that it tells apart.\<close>

definition str_headers :: "string list" where
  "str_headers = [''title'', ''artist'', ''language'', ''edition'', ''genre'', ''album'', ''year'',
     ''creator'', ''mp3'', ''cover'', ''background'', ''relative'', ''video'', ''p1'', ''p2'',
     ''encoding'', ''comment'', ''resolution'']"

definition float_headers :: "string list" where
  "float_headers = [''bpm'', ''gap'', ''videogap'', ''start'', ''end'', ''previewstart'']"

definition int_headers :: "string list" where
  "int_headers = [''medleystartbeat'', ''medleyendbeat'']"

definition header_key :: "string \<Rightarrow> string" where
  "header_key header = (if header = ''AUTHOR'' then ''creator'' else lower header)"

definition set_header_value :: "'f pyfloat \<Rightarrow> 'f kwargs \<Rightarrow> string \<Rightarrow> string \<Rightarrow> error + 'f kwargs" where
  "set_header_value F kwargs header0 v =
     (let header = header_key header0 in
      if header \<in> set str_headers
      then Inr (kwargs\<lparr>kw_named := (kw_named kwargs)(header \<mapsto> StrV v)\<rparr>)
      else if header \<in> set float_headers then
        (case float_of F (str_replace_char (CHR '','') ''.'' v) of
           None \<Rightarrow> Inl ValueError
         | Some x \<Rightarrow> Inr (kwargs\<lparr>kw_named := (kw_named kwargs)(header \<mapsto> FloatV x)\<rparr>))
      else if header \<in> set int_headers then
        (case py_int v of
           None \<Rightarrow> Inl ValueError
         | Some i \<Rightarrow> Inr (kwargs\<lparr>kw_named := (kw_named kwargs)(header \<mapsto> IntV i)\<rparr>))
      else Inr (kwargs\<lparr>kw_unknown := dict_set (kw_unknown kwargs) header v\<rparr>))"

text \<open>
  \<^verbatim>\<open>Headers.parse\<close>.  The loop stops at the first line that does not start with \<^verbatim>\<open>#\<close>.
  The handler around \<^verbatim>\<open>_set_header_value\<close> catches \<^verbatim>\<open>ValueError\<close> only; a split with other
  than two parts would make the unpacking raise \<^verbatim>\<open>ValueError\<close> outside of it.
\<close>

definition quoted :: "string \<Rightarrow> string" where
  "quoted s = [CHR 0x27] @ s @ [CHR 0x27]"

fun headers_loop ::
  "'f pyfloat \<Rightarrow> 'f kwargs \<Rightarrow> string list \<Rightarrow> log_entry list \<Rightarrow> ('f kwargs) parsed" where
  "headers_loop F kwargs [] lg = (Inr kwargs, [], lg)"
| "headers_loop F kwargs (l # lines) lg =
     (if \<not> startswith l ''#'' then (Inr kwargs, l # lines, lg)
      else
        (let line = removeprefix ''#'' l in
         if CHR '':'' \<notin> set line
         then headers_loop F kwargs lines (lg @ [Warning (''header without value: '' @ quoted line)])
         else
           (case split_max (CHR '':'') 1 line of
              [header, v] \<Rightarrow>
                if v = [] then headers_loop F kwargs lines lg
                else
                  (case set_header_value F kwargs header v of
                     Inl ValueError \<Rightarrow>
                       headers_loop F kwargs lines
                         (lg @ [Warning (''invalid header value: '' @ quoted line)])
                   | Inl err \<Rightarrow> (Inl err, lines, lg)
                   | Inr kwargs' \<Rightarrow> headers_loop F kwargs' lines lg)
            | _ \<Rightarrow> (Inl ValueError, lines, lg))))"

declare headers_loop.simps [simp del]

text \<open>
  \<^verbatim>\<open>cls(**kwargs)\<close>: a field without an argument takes its default.  The fields \<open>title\<close>
  and \<open>artist\<close> have none; the constructor is reached only when both are given.
\<close>

definition str_arg :: "'f kwargs \<Rightarrow> string \<Rightarrow> string option" where
  "str_arg kwargs key = (case kw_named kwargs key of Some (StrV s) \<Rightarrow> Some s | _ \<Rightarrow> None)"

definition float_arg :: "'f kwargs \<Rightarrow> string \<Rightarrow> 'f option" where
  "float_arg kwargs key = (case kw_named kwargs key of Some (FloatV x) \<Rightarrow> Some x | _ \<Rightarrow> None)"

definition int_arg :: "'f kwargs \<Rightarrow> string \<Rightarrow> int option" where
  "int_arg kwargs key = (case kw_named kwargs key of Some (IntV i) \<Rightarrow> Some i | _ \<Rightarrow> None)"

definition Headers_init :: "'f pyfloat \<Rightarrow> 'f kwargs \<Rightarrow> 'f Headers" where
  "Headers_init F kwargs =
     \<lparr>unknown = kw_unknown kwargs,
      title = (case str_arg kwargs ''title'' of Some s \<Rightarrow> s | None \<Rightarrow> []),
      artist = (case str_arg kwargs ''artist'' of Some s \<Rightarrow> s | None \<Rightarrow> []),
      bpm = (case float_arg kwargs ''bpm'' of Some x \<Rightarrow> x | None \<Rightarrow> float_zero F),
      gap = (case float_arg kwargs ''gap'' of Some x \<Rightarrow> x | None \<Rightarrow> float_zero F),
      language = str_arg kwargs ''language'',
      edition = str_arg kwargs ''edition'',
      genre = str_arg kwargs ''genre'',
      album = str_arg kwargs ''album'',
      year = str_arg kwargs ''year'',
      creator = str_arg kwargs ''creator'',
      mp3 = str_arg kwargs ''mp3'',
      cover = str_arg kwargs ''cover'',
      background = str_arg kwargs ''background'',
      video = str_arg kwargs ''video'',
      videogap = float_arg kwargs ''videogap'',
      start = float_arg kwargs ''start'',
      end = float_arg kwargs ''end'',
      previewstart = float_arg kwargs ''previewstart'',
      relative = str_arg kwargs ''relative'',
      p1 = str_arg kwargs ''p1'',
      p2 = str_arg kwargs ''p2'',
      medleystartbeat = int_arg kwargs ''medleystartbeat'',
      medleyendbeat = int_arg kwargs ''medleyendbeat'',
      encoding = str_arg kwargs ''encoding'',
      comment = str_arg kwargs ''comment'',
      resolution = str_arg kwargs ''resolution''\<rparr>"

definition Headers_parse :: "'f pyfloat \<Rightarrow> string list \<Rightarrow> log_entry list \<Rightarrow> ('f Headers) parsed" where
  "Headers_parse F lines lg =
     (case headers_loop F \<lparr>kw_unknown = [], kw_named = Map.empty\<rparr> lines lg of
        (Inl err, lines', lg') \<Rightarrow> (Inl err, lines', lg')
      | (Inr kwargs, lines', lg') \<Rightarrow>
          if kw_named kwargs ''title'' = None \<or> kw_named kwargs ''artist'' = None
          then (Inl (NotesParseError ''cannot parse song without artist and title''), lines', lg')
          else (Inr (Headers_init F kwargs), lines',
                if kw_named kwargs ''bpm'' = None then lg' @ [Warning ''missing bpm''] else lg'))"

text \<open>
  \<^verbatim>\<open>Headers.__str__\<close>: the fields in the fixed order of the source, each with its value
  formatted as in \<^verbatim>\<open>f"#{key.upper()}:{val}"\<close>, or \<open>None\<close>; \<open>encoding\<close> is not among them.
\<close>

definition header_items :: "'f pyfloat \<Rightarrow> 'f Headers \<Rightarrow> (string \<times> string option) list" where
  "header_items F h =
     [(''artist'', Some (artist h)),
      (''title'', Some (title h)),
      (''language'', language h),
      (''edition'', edition h),
      (''year'', year h),
      (''genre'', genre h),
      (''album'', album h),
      (''creator'', creator h),
      (''bpm'', Some (float_str F (bpm h))),
      (''gap'', Some (float_str F (gap h))),
      (''videogap'', map_option (float_str F) (videogap h)),
      (''start'', map_option (float_str F) (start h)),
      (''end'', map_option (float_str F) (end h)),
      (''previewstart'', map_option (float_str F) (previewstart h)),
      (''medleystartbeat'', map_option int_str (medleystartbeat h)),
      (''medleyendbeat'', map_option int_str (medleyendbeat h)),
      (''mp3'', mp3 h),
      (''video'', video h),
      (''cover'', cover h),
      (''background'', background h),
      (''p1'', p1 h),
      (''p2'', p2 h),
      (''relative'', relative h),
      (''resolution'', resolution h),
      (''comment'', comment h)]"

definition header_line :: "string \<Rightarrow> string \<Rightarrow> string" where
  "header_line key val = ''#'' @ upper key @ '':'' @ val"

definition Headers_str :: "'f pyfloat \<Rightarrow> 'f Headers \<Rightarrow> string" where
  "Headers_str F h =
     (let out = join [CHR 0x0A]
                  (concat (map (\<lambda>(key, val). case val of None \<Rightarrow> [] | Some v \<Rightarrow> [header_line key v])
                             (header_items F h)))
      in if unknown h \<noteq> []
         then join [CHR 0x0A] (out # map (\<lambda>(key, val). header_line key val) (unknown h))
         else out)"

text \<open>
  For the statements about \<^verbatim>\<open>Headers.parse\<close>: a value is convertible for a key unless the
  key is numeric and the conversion fails; a line gives a header if it has a separator, a
  value that is not empty, and a name that stands for the key with a convertible value;
  and the leading block of \<^verbatim>\<open>#\<close> lines has a header if one of its lines gives it.
\<close>

definition convertible :: "'f pyfloat \<Rightarrow> string \<Rightarrow> string \<Rightarrow> bool" where
  "convertible F key v =
     ((key \<in> set float_headers \<longrightarrow> float_of F (str_replace_char (CHR '','') ''.'' v) \<noteq> None)
      \<and> (key \<in> set int_headers \<longrightarrow> py_int v \<noteq> None))"

definition gives_header :: "'f pyfloat \<Rightarrow> string \<Rightarrow> string \<Rightarrow> bool" where
  "gives_header F key l =
     (let line = removeprefix ''#'' l;
          hname = takeWhile (\<lambda>c. c \<noteq> CHR '':'') line;
          v = tl (dropWhile (\<lambda>c. c \<noteq> CHR '':'') line)
      in CHR '':'' \<in> set line \<and> v \<noteq> [] \<and> header_key hname = key \<and> convertible F key v)"

definition has_header :: "'f pyfloat \<Rightarrow> string \<Rightarrow> string list \<Rightarrow> bool" where
  "has_header F key lines = list_ex (gives_header F key) (takeWhile (\<lambda>l. startswith l ''#'') lines)"

definition empty_kwargs :: "'f kwargs" where
  "empty_kwargs = \<lparr>kw_unknown = [], kw_named = Map.empty\<rparr>"

text \<open>
  For closed examples: a stand-in for the floats that has the whole numbers only,
  written with one decimal place, and a constructor of meta tags that keeps nothing.
\<close>

definition whole_of_str :: "string \<Rightarrow> int option" where
  "whole_of_str s =
     (case split_char (CHR ''.'') s of
        [a] \<Rightarrow> py_int a
      | [a, b] \<Rightarrow> if b = ''0'' then py_int a else None
      | _ \<Rightarrow> None)"

definition whole_floats :: "int pyfloat" where
  "whole_floats = \<lparr>float_of = whole_of_str, float_str = (\<lambda>i. int_str i @ ''.0''), float_zero = 0\<rparr>"

definition header_example :: "string list" where
  "header_example = [''#TITLE:Somebody to Love'', ''#ARTIST:Queen'', ''#nocolon'', ''#GAP:soon'',
     '': 0 2 60 Some'']"

section \<open>notes\_parser.py: notes and lines\<close>

text \<open>\<^verbatim>\<open>NoteKind\<close> with the value of each member, and the lookup \<^verbatim>\<open>NoteKind(value)\<close>.\<close>

datatype NoteKind = REGULAR | GOLDEN | FREESTYLE | RAP | GOLDEN_RAP

fun kind_value :: "NoteKind \<Rightarrow> string" where
  "kind_value REGULAR = '':''"
| "kind_value GOLDEN = ''*''"
| "kind_value FREESTYLE = ''F''"
| "kind_value RAP = ''R''"
| "kind_value GOLDEN_RAP = ''G''"

definition NoteKind_of :: "string \<Rightarrow> NoteKind option" where
  "NoteKind_of v = find (\<lambda>k. kind_value k = v) [REGULAR, GOLDEN, FREESTYLE, RAP, GOLDEN_RAP]"

record Note =
  kind :: NoteKind
  start :: int
  duration :: int
  pitch :: int
  "text" :: string

text \<open>
  The pattern of a note, \<^verbatim>\<open>(:|\*|F|R|G):? +(-?\d+) +(\d+) +(-?\d+) (.+)\<close>, matched against
  the whole string.  Each piece of the pattern can match in one way only: a run of blanks
  or digits has to be taken whole, since what follows it in the pattern cannot start with
  a blank or a digit, respectively; so the matcher reads the string from left to right.
  \<open>spaces1\<close> is \<^verbatim>\<open>" +"\<close>, \<open>match_nat\<close> is \<^verbatim>\<open>(\d+)\<close> and \<open>match_int\<close> is \<^verbatim>\<open>(-?\d+)\<close>, each
  returning the rest of the string (and the group matched); the dot matches every
  character but the line feed.  The result holds the five groups.
\<close>

definition spaces1 :: "string \<Rightarrow> string option" where
  "spaces1 s = (if s \<noteq> [] \<and> hd s = CHR '' '' then Some (dropWhile (\<lambda>c. c = CHR '' '') s) else None)"

definition match_nat :: "string \<Rightarrow> (string \<times> string) option" where
  "match_nat s = (if s \<noteq> [] \<and> is_digit (hd s) then Some (takeWhile is_digit s, dropWhile is_digit s) else None)"

definition match_int :: "string \<Rightarrow> (string \<times> string) option" where
  "match_int s =
     (if s \<noteq> [] \<and> hd s = CHR ''-''
      then map_option (\<lambda>(ds, r). (CHR ''-'' # ds, r)) (match_nat (tl s))
      else match_nat s)"

definition note_regex :: "string \<Rightarrow> (string \<times> string \<times> string \<times> string \<times> string) option" where
  "note_regex v =
     (case v of
        [] \<Rightarrow> None
      | k # r0 \<Rightarrow>
          if k \<notin> set '':*FRG'' then None
          else
            (case spaces1 (if r0 \<noteq> [] \<and> hd r0 = CHR '':'' then tl r0 else r0) of
               None \<Rightarrow> None
             | Some r2 \<Rightarrow>
            (case match_int r2 of
               None \<Rightarrow> None
             | Some (g2, r3) \<Rightarrow>
            (case spaces1 r3 of
               None \<Rightarrow> None
             | Some r4 \<Rightarrow>
            (case match_nat r4 of
               None \<Rightarrow> None
             | Some (g3, r5) \<Rightarrow>
            (case spaces1 r5 of
               None \<Rightarrow> None
             | Some r6 \<Rightarrow>
            (case match_int r6 of
               None \<Rightarrow> None
             | Some (g4, r7) \<Rightarrow>
                 if r7 \<noteq> [] \<and> hd r7 = CHR '' '' \<and> tl r7 \<noteq> [] \<and> CHR 0x0A \<notin> set (tl r7)
                 then Some ([k], g2, g3, g4, tl r7) else None)))))))"

text \<open>
  \<^verbatim>\<open>Note.parse\<close>: a failed match raises \<^verbatim>\<open>NotesParseError\<close>, and so does a \<^verbatim>\<open>ValueError\<close>
  from one of the conversions.
\<close>

definition Note_parse :: "string \<Rightarrow> error + Note" where
  "Note_parse v =
     (case note_regex v of
        None \<Rightarrow> Inl (NotesParseError (''invalid note: '' @ [CHR 0x27] @ v @ [CHR 0x27]))
      | Some (g1, g2, g3, g4, g5) \<Rightarrow>
          (case (NoteKind_of g1, py_int g2, py_int g3, py_int g4) of
             (Some k, Some s, Some d, Some p) \<Rightarrow>
               Inr \<lparr>kind = k, start = s, duration = d, pitch = p, text = g5\<rparr>
           | _ \<Rightarrow> Inl (NotesParseError (''invalid note: '' @ [CHR 0x27] @ v @ [CHR 0x27]))))"

definition Note_str :: "Note \<Rightarrow> string" where
  "Note_str n =
     kind_value (kind n) @ '' '' @ int_str (start n) @ '' '' @ int_str (duration n) @ '' ''
       @ int_str (pitch n) @ '' '' @ text n"

text \<open>
  A line break is one beat or a pair of beats; a \<^verbatim>\<open>Line\<close> without a break (\<open>None\<close>) is the
  last one of its player.
\<close>

datatype line_break = Beat int | Beats int int

record Line =
  "notes" :: "Note list"
  line_break :: "line_break option"

text \<open>
  The pattern of a line break, \<^verbatim>\<open>- *(-?\d+) *(-?\d+)? *(.+)?\<close>, matched against the whole
  string.  After the first number the rest of the pattern matches any text without a line
  feed, so the first, greedy attempt decides: the first number is the longest possible,
  a second number is taken if one follows the blanks, and whatever follows further blanks
  is the third group.  The result holds the three groups, \<open>None\<close> for one that took no
  part in the match.
\<close>

definition line_break_regex :: "string \<Rightarrow> (string \<times> string option \<times> string option) option" where
  "line_break_regex v =
     (if v \<noteq> [] \<and> hd v = CHR ''-'' then
        (case match_int (dropWhile (\<lambda>c. c = CHR '' '') (tl v)) of
           None \<Rightarrow> None
         | Some (g1, r1) \<Rightarrow>
             (let r2 = dropWhile (\<lambda>c. c = CHR '' '') r1;
                  (g2, r3) = (case match_int r2 of None \<Rightarrow> (None, r2) | Some (g, r) \<Rightarrow> (Some g, r));
                  r4 = dropWhile (\<lambda>c. c = CHR '' '') r3
              in if CHR 0x0A \<in> set r4 then None
                 else Some (g1, g2, if r4 = [] then None else Some r4)))
      else None)"

text \<open>
  \<^verbatim>\<open>_parse_line_break\<close>.  The conversions are outside any handler here, so the
  \<^verbatim>\<open>ValueError\<close> that \<^verbatim>\<open>int\<close> raises for a beat of more than \<open>MAX_STR_DIGITS\<close> digits
  leaves the function as it is.
\<close>

definition parse_line_break :: "string \<Rightarrow> error + (line_break \<times> string option)" where
  "parse_line_break v =
     (case line_break_regex v of
        None \<Rightarrow> Inl (NotesParseError (''invalid line break: '' @ [CHR 0x27] @ v @ [CHR 0x27]))
      | Some (g1, g2, g3) \<Rightarrow>
          (if truthy g2 then
             (case (py_int g1, py_int (the g2)) of
                (Some a, Some b) \<Rightarrow> Inr (Beats a b, g3)
              | _ \<Rightarrow> Inl ValueError)
           else (case py_int g1 of Some a \<Rightarrow> Inr (Beat a, g3) | None \<Rightarrow> Inl ValueError)))"

text \<open>
  A text with no more digits than \<^verbatim>\<open>int\<close> converts: none of the numbers in it is past the
  limit.
\<close>

definition within_limit :: "string \<Rightarrow> bool" where
  "within_limit l = (length (filter is_digit l) \<le> MAX_STR_DIGITS)"

text \<open>
  \<^verbatim>\<open>Line.parse\<close>: the loop takes the first line off the list until a terminator is met;
  only \<^verbatim>\<open>NotesParseError\<close> is handled, so a \<^verbatim>\<open>ValueError\<close> from \<^verbatim>\<open>_parse_line_break\<close> ends the
  loop and is passed on.  The first equation is the \<^verbatim>\<open>else\<close> branch of the
  \<^verbatim>\<open>while\<close>, taken when the lines run out.
\<close>

fun line_parse_loop :: "Note list \<Rightarrow> string list \<Rightarrow> log_entry list \<Rightarrow> Line parsed" where
  "line_parse_loop ns [] lg =
     (Inr \<lparr>notes = ns, line_break = None\<rparr>, [], lg @ [Warning ''unterminated line''])"
| "line_parse_loop ns (l # lines) lg =
     (let txt_line = lstrip l in
      if rstrip txt_line \<in> {''E'', ''P2''} then (Inr \<lparr>notes = ns, line_break = None\<rparr>, lines, lg)
      else if startswith txt_line ''-'' then
        (case parse_line_break txt_line of
           Inl (NotesParseError msg) \<Rightarrow> line_parse_loop ns lines (lg @ [Warning msg])
         | Inl err \<Rightarrow> (Inl err, lines, lg)
         | Inr (lb, next_line) \<Rightarrow>
             (Inr \<lparr>notes = ns, line_break = Some lb\<rparr>,
              (if truthy next_line then the next_line # lines else lines), lg))
      else
        (case Note_parse txt_line of
           Inl (NotesParseError msg) \<Rightarrow> line_parse_loop ns lines (lg @ [Warning msg])
         | Inl err \<Rightarrow> (Inl err, lines, lg)
         | Inr n \<Rightarrow> line_parse_loop (ns @ [n]) lines lg))"

declare line_parse_loop.simps [simp del]

definition Line_parse :: "string list \<Rightarrow> log_entry list \<Rightarrow> Line parsed" where
  "Line_parse lines lg = line_parse_loop [] lines lg"

definition is_last :: "Line \<Rightarrow> bool" where
  "is_last line = (line_break line = None)"


text \<open>
  \<^verbatim>\<open>_player_lines\<close> calls \<^verbatim>\<open>Line.parse\<close> until the lines run out or a last line is met.
  A call may put the dangling rest of a line break back in front of the list, so the
  number of lines need not fall; the number of characters and lines together does.
\<close>

definition weight :: "string list \<Rightarrow> nat" where
  "weight lines = sum_list (map (\<lambda>l. Suc (length l)) lines)"

lemma match_nat_shorter: "match_nat s = Some (g, r) \<Longrightarrow> length r < length s"
proof -
  assume "match_nat s = Some (g, r)"
  then have s: "s \<noteq> []" "is_digit (hd s)" and r: "r = dropWhile is_digit s"
    by (auto simp: match_nat_def split: if_splits)
  then obtain c cs where "s = c # cs" "is_digit c" by (cases s) auto
  then show ?thesis using r length_dropWhile_le [of is_digit cs] by simp
qed

lemma match_int_shorter: "match_int s = Some (g, r) \<Longrightarrow> length r < length s"
proof -
  assume m: "match_int s = Some (g, r)"
  show ?thesis
  proof (cases "s \<noteq> [] \<and> hd s = CHR ''-''")
    case True
    with m obtain ds where "match_nat (tl s) = Some (ds, r)" by (auto simp: match_int_def)
    from match_nat_shorter [OF this] show ?thesis by simp
  next
    case False
    with m have "match_nat s = Some (g, r)" by (auto simp: match_int_def)
    then show ?thesis by (rule match_nat_shorter)
  qed
qed

lemma line_break_regex_shorter:
  assumes "line_break_regex v = Some (g1, g2, Some nl)"
  shows "length nl < length v"
proof -
  let ?sp = "dropWhile (\<lambda>c. c = CHR '' '')"
  from assms have v: "v \<noteq> []" by (auto simp: line_break_regex_def split: if_splits)
  obtain r1 where m1: "match_int (?sp (tl v)) = Some (g1, r1)"
  proof (cases "match_int (?sp (tl v))")
    case None
    with assms show ?thesis by (simp add: line_break_regex_def split: if_splits)
  next
    case (Some p)
    obtain g r where p: "p = (g, r)" by (cases p)
    with Some assms have "g = g1"
      by (auto simp: line_break_regex_def Let_def split: if_splits prod.splits)
    with Some p that show ?thesis by simp
  qed
  have l1: "length r1 < length v"
    using match_int_shorter [OF m1] length_dropWhile_le [of "\<lambda>c. c = CHR '' ''" "tl v"] v by simp
  obtain r3 where r3: "length r3 \<le> length (?sp r1)" and nl: "nl = ?sp r3"
  proof (cases "match_int (?sp r1)")
    case None
    with assms v m1 have "nl = ?sp (?sp r1)"
      by (auto simp: line_break_regex_def Let_def split: if_splits)
    then show ?thesis using that [of "?sp r1"] by simp
  next
    case (Some p)
    obtain g r where p: "p = (g, r)" by (cases p)
    with Some assms v m1 have "nl = ?sp r"
      by (auto simp: line_break_regex_def Let_def split: if_splits)
    moreover have "length r \<le> length (?sp r1)" using match_int_shorter Some p by fastforce
    ultimately show ?thesis using that by simp
  qed
  have "length nl \<le> length r3" using nl length_dropWhile_le by simp
  also have "\<dots> \<le> length r1" using r3 length_dropWhile_le [of "\<lambda>c. c = CHR '' ''" r1] by simp
  finally show ?thesis using l1 by simp
qed

lemma parse_line_break_shorter:
  "parse_line_break v = Inr (lb, Some nl) \<Longrightarrow> length nl < length v"
  by (auto simp: parse_line_break_def split: option.splits if_splits prod.splits
      dest: line_break_regex_shorter)

lemma length_lstrip: "length (lstrip l) \<le> length l"
  by (simp add: lstrip_def length_dropWhile_le)

lemma line_parse_loop_weight:
  "line_parse_loop ns lines lg = (r, lines', lg')
     \<Longrightarrow> weight lines' \<le> weight lines \<and> (lines \<noteq> [] \<longrightarrow> weight lines' < weight lines)"
proof (induction ns lines lg rule: line_parse_loop.induct)
  case (1 ns lg)
  then show ?case by (simp add: weight_def line_parse_loop.simps)
next
  case (2 ns l lines lg)
  show ?case
  proof (cases "rstrip (lstrip l) \<in> {''E'', ''P2''}")
    case True
    with "2.prems" show ?thesis by (auto simp: weight_def line_parse_loop.simps Let_def)
  next
    case notend: False
    show ?thesis
    proof (cases "startswith (lstrip l) ''-''")
      case True
      show ?thesis
      proof (cases "parse_line_break (lstrip l)")
        case (Inl e)
        show ?thesis
        proof (cases e)
          case (NotesParseError msg)
          with Inl True notend "2.prems" "2.IH"(1) [OF refl notend True Inl NotesParseError]
          show ?thesis by (auto simp: weight_def line_parse_loop.simps Let_def)
        qed (use Inl True notend "2.prems" in \<open>auto simp: weight_def line_parse_loop.simps Let_def\<close>)
      next
        case (Inr p)
        obtain lb nxt where p: "p = (lb, nxt)" by (cases p)
        show ?thesis
        proof (cases nxt)
          case None
          with Inr p True notend "2.prems" show ?thesis by (auto simp: weight_def line_parse_loop.simps Let_def truthy_def)
        next
          case (Some nl)
          have "length nl < length (lstrip l)"
            using Inr p Some parse_line_break_shorter by simp
          then have "length nl < length l" using length_lstrip [of l] by simp
          with Inr p Some True notend "2.prems" show ?thesis
            by (auto simp: weight_def line_parse_loop.simps Let_def truthy_def split: if_splits)
        qed
      qed
    next
      case False
      show ?thesis
      proof (cases "Note_parse (lstrip l)")
        case (Inl e)
        show ?thesis
        proof (cases e)
          case (NotesParseError msg)
          with Inl False notend "2.prems" "2.IH"(2) [OF refl notend False Inl NotesParseError]
          show ?thesis by (auto simp: weight_def line_parse_loop.simps Let_def)
        qed (use Inl False notend "2.prems" in \<open>auto simp: weight_def line_parse_loop.simps Let_def\<close>)
      next
        case (Inr n)
        with False notend "2.prems" "2.IH"(3) [OF refl notend False Inr]
        show ?thesis by (auto simp: weight_def line_parse_loop.simps Let_def)
      qed
    qed
  qed
qed

function player_lines_loop :: "Line list \<Rightarrow> string list \<Rightarrow> log_entry list \<Rightarrow> (Line list) parsed" where
  "player_lines_loop ns lines lg =
     (if lines = [] then (Inr ns, lines, lg)
      else
        (case Line_parse lines lg of
           (Inl err, lines', lg') \<Rightarrow> (Inl err, lines', lg')
         | (Inr line, lines', lg') \<Rightarrow>
             (let ns' = (if notes line \<noteq> [] then ns @ [line] else ns) in
              if is_last line then (Inr ns', lines', lg')
              else player_lines_loop ns' lines' lg')))"
  by pat_completeness auto
termination
proof (relation "measure (\<lambda>(ns, lines, lg). weight lines)", goal_cases)
  case 1
  then show ?case by simp
next
  case (2 ns lines lg x1 x2 line y1 y2 ns')
  then have "line_parse_loop [] lines lg = (Inr line, y1, y2)" and "lines \<noteq> []"
    by (simp_all add: Line_parse_def)
  from line_parse_loop_weight [OF this(1)] this(2) show ?case by simp
qed

declare player_lines_loop.simps [simp del]

text \<open>
  \<^verbatim>\<open>_player_lines\<close>: a first line that starts with \<^verbatim>\<open>P\<close> is dropped, and the break of the
  last line collected is reset.
\<close>

definition player_lines :: "string list \<Rightarrow> log_entry list \<Rightarrow> (Line list) parsed" where
  "player_lines lines lg =
     (case player_lines_loop []
             (if lines \<noteq> [] \<and> startswith (hd lines) ''P'' then tl lines else lines) lg of
        (Inl err, lines', lg') \<Rightarrow> (Inl err, lines', lg')
      | (Inr ns, lines', lg') \<Rightarrow>
          (Inr (if ns \<noteq> [] then butlast ns @ [(last ns)\<lparr>line_break := None\<rparr>] else ns),
           lines', lg'))"

record PlayerNotes =
  player_1 :: "Line list"
  player_2 :: "Line list option"

definition PlayerNotes_parse :: "string list \<Rightarrow> log_entry list \<Rightarrow> PlayerNotes parsed" where
  "PlayerNotes_parse lines lg =
     (case player_lines lines lg of
        (Inl err, lines1, lg1) \<Rightarrow> (Inl err, lines1, lg1)
      | (Inr player1, lines1, lg1) \<Rightarrow>
          (case player_lines lines1 lg1 of
             (Inl err, lines2, lg2) \<Rightarrow> (Inl err, lines2, lg2)
           | (Inr player2, lines2, lg2) \<Rightarrow>
               (Inr \<lparr>player_1 = player1, player_2 = (if player2 \<noteq> [] then Some player2 else None)\<rparr>,
                lines2, lg2)))"


text \<open>Two notes, a line break, and the end of the file.\<close>

definition trailing_break_example :: "string list" where
  "trailing_break_example = ['': 0 2 60 Some'', '': 4 2 62 bo'', ''- 8'', ''E'']"

text \<open>\<^verbatim>\<open>Line.__str__\<close> and \<^verbatim>\<open>PlayerNotes.__str__\<close>.\<close>

definition line_break_str :: "line_break option \<Rightarrow> string option" where
  "line_break_str lb =
     (case lb of
        None \<Rightarrow> None
      | Some (Beat b) \<Rightarrow> Some (''- '' @ int_str b)
      | Some (Beats b c) \<Rightarrow> Some (''- '' @ int_str b @ '' '' @ int_str c))"

definition Line_str :: "Line \<Rightarrow> string" where
  "Line_str line =
     (let out = join [CHR 0x0A] (map Note_str (notes line))
      in if truthy (line_break_str (line_break line))
         then out @ [CHR 0x0A] @ the (line_break_str (line_break line))
         else out)"

definition PlayerNotes_str :: "PlayerNotes \<Rightarrow> string" where
  "PlayerNotes_str pn =
     (let body = join [CHR 0x0A] (map Line_str (player_1 pn))
      in (case player_2 pn of
            None \<Rightarrow> body
          | Some second \<Rightarrow>
              if second \<noteq> [] then join [CHR 0x0A] ([''P1'', body, ''P2''] @ map Line_str second)
              else body)
         @ [CHR 0x0A] @ ''E'')"

section \<open>notes\_parser.py: the song\<close>

text \<open>
  The class \<^verbatim>\<open>MetaTags\<close> is not part of the sources; its constructor is a parameter, which
  takes the text of the \<^verbatim>\<open>#VIDEO\<close> header and the log and returns the tags and the log.
  \<^verbatim>\<open>SongTxt.try_parse\<close> turns \<^verbatim>\<open>NotesParseError\<close> into the result \<^verbatim>\<open>None\<close>.
\<close>

record ('f, 'm) SongTxt =
  headers :: "'f Headers"
  "notes" :: PlayerNotes
  meta_tags :: 'm

definition SongTxt_str :: "'f pyfloat \<Rightarrow> ('f, 'm) SongTxt \<Rightarrow> string" where
  "SongTxt_str F song = Headers_str F (headers song) @ [CHR 0x0A] @ PlayerNotes_str (notes song)"

definition try_parse ::
  "'f pyfloat \<Rightarrow> (string \<Rightarrow> log_entry list \<Rightarrow> 'm \<times> log_entry list) \<Rightarrow> string \<Rightarrow> log_entry list
    \<Rightarrow> (error + ('f, 'm) SongTxt option) \<times> log_entry list" where
  "try_parse F MetaTags v lg =
     (case Headers_parse F (filter (\<lambda>line. line \<noteq> []) (split_char (CHR 0x0A) v)) lg of
        (Inl (NotesParseError msg), lines1, lg1) \<Rightarrow> (Inr None, lg1)
      | (Inl err, lines1, lg1) \<Rightarrow> (Inl err, lg1)
      | (Inr hs, lines1, lg1) \<Rightarrow>
          (case MetaTags (case video hs of None \<Rightarrow> [] | Some t \<Rightarrow> t) lg1 of
             (tags, lg2) \<Rightarrow>
               (case PlayerNotes_parse lines1 lg2 of
                  (Inl (NotesParseError msg), lines2, lg3) \<Rightarrow> (Inr None, lg3)
                | (Inl err, lines2, lg3) \<Rightarrow> (Inl err, lg3)
                | (Inr pn, lines2, lg3) \<Rightarrow>
                    (Inr (Some \<lparr>headers = hs, notes = pn, meta_tags = tags\<rparr>),
                     if lines2 \<noteq> [] then lg3 @ [TrailingTextWarning lines2] else lg3))))"

definition no_tags :: "string \<Rightarrow> log_entry list \<Rightarrow> unit \<times> log_entry list" where
  "no_tags v lg = ((), lg)"

section \<open>Sanitised file names\<close>

lemma set_str_replace_char:
  "set (str_replace_char c new s) = (set s - {c}) \<union> (if c \<in> set s then set new else {})"
  by (induction s) (auto simp: str_replace_char_def)

lemma endswith_single: "endswith s [c] \<longleftrightarrow> s \<noteq> [] \<and> last s = c"
proof (cases s rule: rev_cases)
  case Nil
  then show ?thesis by (simp add: endswith_def)
next
  case (snoc ys y)
  then show ?thesis by (auto simp: endswith_def)
qed

lemma rstrip_chars_subset: "set (rstrip_chars cs s) \<subseteq> set s"
proof -
  have "set (dropWhile (\<lambda>c. c \<in> set cs) (rev s)) \<subseteq> set (rev s)"
    by (rule set_dropWhileD [THEN subsetI]) 
  then show ?thesis by (simp add: rstrip_chars_def)
qed

lemma rstrip_chars_last:
  "rstrip_chars cs s \<noteq> [] \<Longrightarrow> last (rstrip_chars cs s) \<notin> set cs"
proof -
  assume ne: "rstrip_chars cs s \<noteq> []"
  let ?d = "dropWhile (\<lambda>c. c \<in> set cs) (rev s)"
  from ne have d: "?d \<noteq> []" by (simp add: rstrip_chars_def)
  then have "hd ?d \<notin> set cs" using hd_dropWhile [of "\<lambda>c. c \<in> set cs" "rev s"] by simp
  moreover have "last (rev ?d) = hd ?d" using d by (simp add: last_rev)
  ultimately show ?thesis by (simp add: rstrip_chars_def)
qed

lemma replaced_chars_clean:
  "set (fold replace_all_chars FILENAME_REPLACEMENTS fname) \<inter> set forbidden_chars = {}"
  by (auto simp: FILENAME_REPLACEMENTS_def replace_all_chars_def forbidden_chars_def
      set_str_replace_char split: if_splits)

text \<open>
  Claim C10.  Whatever the input, the result of \<open>sanitize_filename\<close> contains none of
  the characters \<^verbatim>\<open>? : " < > / \ | *\<close>, and it does not end with a period.
\<close>

theorem sanitize_filename_clean:
  "set (sanitize_filename fname) \<inter> set forbidden_chars = {}
   \<and> \<not> endswith (sanitize_filename fname) ''.''"
proof
  let ?f1 = "fold replace_all_chars FILENAME_REPLACEMENTS fname"
  have "set (sanitize_filename fname) \<subseteq> set ?f1"
    using rstrip_chars_subset [of "'' .''" ?f1] by (simp add: sanitize_filename_def Let_def)
  then show "set (sanitize_filename fname) \<inter> set forbidden_chars = {}"
    using replaced_chars_clean [of fname] by blast
next
  let ?f1 = "fold replace_all_chars FILENAME_REPLACEMENTS fname"
  show "\<not> endswith (sanitize_filename fname) ''.''"
  proof (cases "endswith ?f1 ''.''")
    case True
    then have eq: "sanitize_filename fname = rstrip_chars '' .'' ?f1"
      by (simp add: sanitize_filename_def Let_def)
    show ?thesis
      using rstrip_chars_last [of "'' .''" ?f1] by (auto simp: eq endswith_single)
  next
    case False
    then show ?thesis by (simp add: sanitize_filename_def Let_def)
  qed
qed


section \<open>Directory allocation\<close>

lemma unique_loop_free:
  assumes "stamp s q + CACHE_LIFETIME < clock (ticks s)" and "\<not> exists q"
  shows "unique_loop clock exists p q sfx s =
           Some (Inr q, s\<lparr>ticks := Suc (ticks s), cache := (cache s)(q \<mapsto> clock (ticks s))\<rparr>)"
  using assms
  by (subst unique_loop.simps) (simp add: cache_insert_def Let_def)

lemma unique_loop_reserved:
  assumes "\<not> stamp s q + CACHE_LIFETIME < clock (ticks s)"
    and "with_name p (name p @ '' ('' @ nat_str (Suc sfx) @ '')'') = Inr q'"
  shows "unique_loop clock exists p q sfx s =
           unique_loop clock exists p q' (Suc sfx) (s\<lparr>ticks := Suc (ticks s)\<rparr>)"
  using assms
  by (subst unique_loop.simps) (simp add: cache_insert_def Let_def)

lemma nat_str_1: "nat_str (Suc 0) = ''1''"
  by (simp add: nat_str.simps digit_char_def)

text \<open>
  Claim C9.  Let the base path \<open>p\<close> and the path \<open>suffixed\<close> with the suffix \<^verbatim>\<open>" (1)"\<close> both
  be absent from disk, and let the first allocation find no live entry for \<open>p\<close> (none at
  all, or an expired one; with no entry this asks the clock to be past the lifetime, as any
  epoch time is).  Then the first allocation returns \<open>p\<close> itself and reserves it.  A second
  allocation made while that entry is still live returns \<open>suffixed\<close>, which differs from \<open>p\<close>.
  And from every state in which the entry of \<open>p\<close> is older than \<open>CACHE_LIFETIME\<close>, an
  allocation returns the unsuffixed \<open>p\<close> again.
\<close>

theorem next_unique_directory_twice:
  assumes live: "stamp s p + CACHE_LIFETIME < clock (ticks s)"
    and still: "clock (Suc (ticks s)) \<le> clock (ticks s) + CACHE_LIFETIME"
    and free1: "stamp s suffixed + CACHE_LIFETIME < clock (Suc (Suc (ticks s)))"
    and disk: "\<not> exists p" "\<not> exists suffixed"
    and nm: "name p \<noteq> []" "CHR ''/'' \<notin> set (name p)"
    and suffixed: "suffixed = Path (parent p) (name p @ '' (1)'')"
    and s1: "s1 = s\<lparr>ticks := Suc (ticks s), cache := (cache s)(p \<mapsto> clock (ticks s))\<rparr>"
  shows "next_unique_directory clock exists p s = Some (Inr p, s1)
       \<and> map_option fst (next_unique_directory clock exists p s1) = Some (Inr suffixed)
       \<and> p \<noteq> suffixed
       \<and> (\<forall>s3 t. cache s3 p = Some t \<and> t + CACHE_LIFETIME < clock (ticks s3)
             \<longrightarrow> map_option fst (next_unique_directory clock exists p s3) = Some (Inr p))"
proof (intro conjI allI impI)
  show first: "next_unique_directory clock exists p s = Some (Inr p, s1)"
    unfolding next_unique_directory_def s1 using live disk(1) by (rule unique_loop_free)
  have ne: "p \<noteq> suffixed" using suffixed by (cases p) auto
  then show "p \<noteq> suffixed" .
  have wn: "with_name p (name p @ '' ('' @ nat_str (Suc 0) @ '')'') = Inr suffixed"
    using nm suffixed by (auto simp: with_name_def nat_str_1)
  have reserved: "\<not> stamp s1 p + CACHE_LIFETIME < clock (ticks s1)"
    using still by (simp add: s1 stamp_def)
  have free: "stamp (s1\<lparr>ticks := Suc (ticks s1)\<rparr>) suffixed + CACHE_LIFETIME
                < clock (ticks (s1\<lparr>ticks := Suc (ticks s1)\<rparr>))"
    using free1 ne by (simp add: s1 stamp_def)
  show "map_option fst (next_unique_directory clock exists p s1) = Some (Inr suffixed)"
    unfolding next_unique_directory_def
    using unique_loop_reserved [where s = s1 and q = p and clock = clock and p = p
        and sfx = 0 and q' = suffixed and exists = exists, OF reserved wn]
      unique_loop_free [where s = "s1\<lparr>ticks := Suc (ticks s1)\<rparr>" and q = suffixed and clock = clock
        and exists = exists and p = p and sfx = "Suc 0", OF free disk(2)]
    by simp
next
  fix s3 :: dir_state and t :: real
  assume "cache s3 p = Some t \<and> t + CACHE_LIFETIME < clock (ticks s3)"
  then have "stamp s3 p + CACHE_LIFETIME < clock (ticks s3)" by (simp add: stamp_def)
  then show "map_option fst (next_unique_directory clock exists p s3) = Some (Inr p)"
    unfolding next_unique_directory_def by (simp add: unique_loop_free disk(1))
qed

theorem next_unique_directory_twice_witness:
  "next_unique_directory (\<lambda>n. 5000 + real n) (\<lambda>q. False) (Path ''/songs'' ''Queen - Song'')
      \<lparr>cache = Map.empty, ticks = 0\<rparr>
     = Some (Inr (Path ''/songs'' ''Queen - Song''),
         \<lparr>cache = [Path ''/songs'' ''Queen - Song'' \<mapsto> 5000], ticks = 1\<rparr>)
   \<and> map_option fst (next_unique_directory (\<lambda>n. 5000 + real n) (\<lambda>q. False)
        (Path ''/songs'' ''Queen - Song'')
        \<lparr>cache = [Path ''/songs'' ''Queen - Song'' \<mapsto> 5000], ticks = 1\<rparr>)
     = Some (Inr (Path ''/songs'' ''Queen - Song (1)''))"
proof -
  let ?p = "Path ''/songs'' ''Queen - Song''"
  let ?s = "\<lparr>cache = Map.empty, ticks = 0\<rparr> :: dir_state"
  let ?clock = "\<lambda>n. 5000 + real n"
  have a: "stamp ?s ?p + CACHE_LIFETIME < ?clock (ticks ?s)"
    by (simp add: stamp_def CACHE_LIFETIME_def)
  have b: "?clock (Suc (ticks ?s)) \<le> ?clock (ticks ?s) + CACHE_LIFETIME"
    by (simp add: CACHE_LIFETIME_def)
  have c: "stamp ?s (Path ''/songs'' ''Queen - Song (1)'') + CACHE_LIFETIME
             < ?clock (Suc (Suc (ticks ?s)))"
    by (simp add: stamp_def CACHE_LIFETIME_def)
  have d: "\<lparr>cache = [?p \<mapsto> 5000], ticks = 1\<rparr>
             = ?s\<lparr>ticks := Suc (ticks ?s), cache := (cache ?s)(?p \<mapsto> ?clock (ticks ?s))\<rparr>"
    by simp
  from next_unique_directory_twice [where s = ?s and p = ?p and clock = ?clock
      and exists = "\<lambda>q. False" and ?suffixed = "Path ''/songs'' ''Queen - Song (1)''", OF a b c _ _ _ _ _ d]
  show ?thesis by simp
qed

section \<open>Schema validation\<close>

text \<open>
  Claim C8.  If the table \<^verbatim>\<open>meta\<close> exists and has no row, or its first row carries a version
  other than \<open>SCHEMA_VERSION\<close>, validation fails with \<open>UnknownSchemaError\<close> and the store
  is exactly as before.  If the store has no table at all, the schema is created and
  \<^verbatim>\<open>meta\<close> receives the single row stamped with \<open>SCHEMA_VERSION\<close> and the creation time.
\<close>

theorem validate_schema_mismatch_or_create:
  "(meta db = Some rows \<and> (rows = [] \<or> fst (snd (hd rows)) \<noteq> Integer SCHEMA_VERSION)
      \<longrightarrow> validate_schema ctime db = (Inl UnknownSchemaError, db))
   \<and> (meta db = None \<and> tables db = []
      \<longrightarrow> validate_schema ctime db
            = (Inr (), \<lparr>meta = Some [(Integer 1, Integer SCHEMA_VERSION, Integer ctime)],
                        tables = [''usdb_song'', ''sync_meta'', ''resource_file'',
                                  ''active_sync_meta'', ''fts_usdb_song'']\<rparr>))"
  by (cases db) (auto simp: validate_schema_def setup_script_def insert_meta_def Let_def
      split: list.splits)

theorem validate_schema_mismatch_or_create_witness:
  "validate_schema 1700000000000000 \<lparr>meta = Some [(Integer 1, Integer 2, Integer 5)], tables = [''usdb_song'']\<rparr>
     = (Inl UnknownSchemaError, \<lparr>meta = Some [(Integer 1, Integer 2, Integer 5)], tables = [''usdb_song'']\<rparr>)
   \<and> validate_schema 1700000000000000 \<lparr>meta = Some [], tables = []\<rparr>
     = (Inl UnknownSchemaError, \<lparr>meta = Some [], tables = []\<rparr>)
   \<and> validate_schema 1700000000000000 \<lparr>meta = None, tables = []\<rparr>
     = (Inr (), \<lparr>meta = Some [(Integer 1, Integer 1, Integer 1700000000000000)],
                 tables = [''usdb_song'', ''sync_meta'', ''resource_file'',
                           ''active_sync_meta'', ''fts_usdb_song'']\<rparr>)"
  using validate_schema_mismatch_or_create [of "\<lparr>meta = Some [(Integer 1, Integer 2, Integer 5)], tables = [''usdb_song'']\<rparr>"
      "[(Integer 1, Integer 2, Integer 5)]" 1700000000000000]
    validate_schema_mismatch_or_create [of "\<lparr>meta = Some [], tables = []\<rparr>" "[]" 1700000000000000]
    validate_schema_mismatch_or_create [of "\<lparr>meta = None, tables = []\<rparr>" "[]" 1700000000000000]
  by (simp add: SCHEMA_VERSION_def)

section \<open>The search builder\<close>

text \<open>
  What holds of the clause: without filters there is no \<^verbatim>\<open>WHERE\<close> and every row matches;
  the search for the artist Queen and the rating 5 matches the rows with both; a single
  range of views is closed below and open above, or unbounded above.
\<close>

lemmas search_defs = where_clause_def filters_def parameters_def default_search_def
  in_values_clause_def in_ranges_clause_def fts5_phrases_def split_char_def
  str_replace_char_def sqlite_where_def split_str_def startswith_def

lemma empty_search_matches_all_rows:
  "where_clause default_search = [] \<and> parameters default_search = []
   \<and> sqlite_where fts (where_clause default_search) (parameters default_search) r = Some True"
  by (simp add: search_defs)

lemma no_filters_no_where: "filters sb = [] \<Longrightarrow> where_clause sb = []"
  by (simp add: where_clause_def)

lemma queen_five_both_hold:
  "where_clause queen_five = '' WHERE usdb_song.artist IN (?) AND usdb_song.rating IN (?)''
   \<and> sqlite_where fts (where_clause queen_five) (parameters queen_five) r
       = Some (sql_eq (r ''usdb_song.artist'') (Text ''Queen'')
               \<and> sql_eq (r ''usdb_song.rating'') (Integer 5))"
  by (simp add: search_defs queen_five_def)

lemma closed_range_half_open:
  assumes "r ''usdb_song.views'' = Integer v"
  shows "sqlite_where fts (where_clause (default_search\<lparr>views := [(lo, Some hi)]\<rparr>))
           (parameters (default_search\<lparr>views := [(lo, Some hi)]\<rparr>)) r
         = Some (lo \<le> v \<and> v < hi)"
  using assms by (simp add: search_defs)

lemma open_range_lower_bound:
  assumes "r ''usdb_song.views'' = Integer v"
  shows "sqlite_where fts (where_clause (default_search\<lparr>views := [(lo, None)]\<rparr>))
           (parameters (default_search\<lparr>views := [(lo, None)]\<rparr>)) r
         = Some (lo \<le> v)"
  using assms by (simp add: search_defs)

text \<open>
  Claim C3 asks for the conjunction of all filters that are present.  The clause for several
  ranges of views joins them by \<^verbatim>\<open>OR\<close> without parentheses, and the filters are then joined
  by \<^verbatim>\<open>AND\<close>: for the ratings \<open>[5]\<close> and the ranges \<open>[(0, 100), (200, None)]\<close> the clause is
  read as (rating and first range) or (second range).  A row with rating 1 and 300 views
  is selected, though it fails the rating filter.
\<close>

theorem search_views_escape_conjunction:
  "where_clause rated_and_viewed =
     '' WHERE usdb_song.rating IN (?) AND usdb_song.views >= ? AND usdb_song.views < ? OR usdb_song.views >= ?''
   \<and> parameters rated_and_viewed = [Integer 5, Integer 0, Integer 100, Integer 200]
   \<and> sqlite_where no_fts (where_clause rated_and_viewed) (parameters rated_and_viewed) popular_row
       = Some True
   \<and> \<not> matches_all no_fts rated_and_viewed popular_row"
  by code_simp

section \<open>Duet note reassignment\<close>

lemma duet_loop_visited:
  assumes "\<forall>line \<in> set todo. is_note_line line \<longrightarrow> (\<exists>v. note_start line = Inr v)"
  shows "duet_loop (length pre) prev_start (pre @ todo)
           = Inr (pre @ mark_regressions prev_start todo)"
  using assms
proof (induction todo arbitrary: pre prev_start)
  case Nil
  show ?case by (subst duet_loop.simps) simp
next
  case (Cons line rest)
  have rest: "\<forall>l \<in> set rest. is_note_line l \<longrightarrow> (\<exists>v. note_start l = Inr v)"
    using Cons.prems by simp
  have step: "duet_loop (Suc (length pre)) p (pre @ line # rest)
                = Inr (pre @ line # mark_regressions p rest)" for p
    using Cons.IH [OF rest, of "pre @ [line]" p] by simp
  show ?case
  proof (cases "is_note_line line")
    case False
    then show ?thesis
      by (subst duet_loop.simps) (simp add: step)
  next
    case True
    then obtain v where v: "note_start line = Inr v" using Cons.prems by auto
    show ?thesis
    proof (cases "v < prev_start")
      case False
      with True v show ?thesis
        by (subst duet_loop.simps) (simp add: step)
    next
      case less: True
      have ins: "list_insert (length pre) ''P2\<newline>'' (pre @ line # rest)
                   = pre @ ''P2\<newline>'' # line # rest"
        by (simp add: list_insert_def)
      have again: "duet_loop (Suc (length pre)) v (pre @ ''P2\<newline>'' # line # rest)
                     = duet_loop (Suc (Suc (length pre))) v (pre @ ''P2\<newline>'' # line # rest)"
        using True v by (subst duet_loop.simps) (simp add: nth_append)
      have "duet_loop (Suc (Suc (length pre))) v (pre @ ''P2\<newline>'' # line # rest)
              = Inr (pre @ ''P2\<newline>'' # line # mark_regressions v rest)"
        using Cons.IH [OF rest, of "pre @ [''P2\<newline>'', line]" v] by simp
      with True v less ins again show ?thesis
        by (subst duet_loop.simps) simp
    qed
  qed
qed

lemma reassign_players_eq:
  assumes "\<forall>line \<in> set ns. is_note_line line \<longrightarrow> (\<exists>v. note_start line = Inr v)"
  shows "reassign_players ns = Inr (''P1\<newline>'' # mark_regressions 0 ns)"
proof -
  have "\<forall>line \<in> set (''P1\<newline>'' # ns). is_note_line line \<longrightarrow> (\<exists>v. note_start line = Inr v)"
    using assms by (simp add: is_note_line_def startswith_def)
  from duet_loop_visited [OF this, of "[]" 0] show ?thesis
    by (simp add: reassign_players_def is_note_line_def startswith_def)
qed

lemma note_start_examples:
  "note_start '': 0 2 60 Some'' = Inr 0" "note_start '': 4 2 62 bo'' = Inr 4"
  "note_start '': 8 2 64 dy'' = Inr 8" "note_start '': 2 2 57 to'' = Inr 2"
  "note_start '': 6 2 59 love'' = Inr 6"
  by (simp_all add: note_start_def split_max_def py_int_def is_int_space_def MAX_STR_DIGITS_def
      digits_val_def digit_val_def is_digit_def)

lemma beats_example_well_formed:
  "\<forall>line \<in> set beats_example. is_note_line line \<longrightarrow> (\<exists>v. note_start line = Inr v)"
  by (simp add: beats_example_def note_start_examples)

text \<open>
  Claim C2, as the code has it.  For a list of lines whose note lines all have an integer
  start beat, the reassignment puts the marker \<^verbatim>\<open>P1\<close> in front of the list and the marker
  \<^verbatim>\<open>P2\<close> immediately before every note whose start beat is less than the start beat of
  the note before it (less than 0, for the first note); nothing else changes.  For the start
  beats 0, 4, 8, 2, 6 this is one marker, before the note that starts at beat 2.
\<close>

theorem reassign_players_marks_regressions:
  "(\<forall>line \<in> set ns. is_note_line line \<longrightarrow> (\<exists>v. note_start line = Inr v))
     \<longrightarrow> reassign_players ns = Inr (''P1\<newline>'' # mark_regressions 0 ns)"
  using reassign_players_eq by blast

theorem reassign_players_marks_regressions_witness:
  "reassign_players beats_example =
     Inr [''P1\<newline>'', '': 0 2 60 Some'', '': 4 2 62 bo'', '': 8 2 64 dy'', ''P2\<newline>'',
          '': 2 2 57 to'', '': 6 2 59 love'']"
  using reassign_players_marks_regressions [of beats_example] beats_example_well_formed
  by (simp add: beats_example_def note_start_examples is_note_line_def startswith_def)

text \<open>
  The claim as worded compares each note with the greatest start beat seen so far.  On
  the start beats 0, 4, 8, 2, 6 that rule marks the note at beat 6 as well (6 is less
  than 8); the code does not.
\<close>

theorem running_maximum_counterexample:
  "reassign_players beats_example \<noteq> Inr (''P1\<newline>'' # mark_below_maximum None beats_example)"
  using reassign_players_eq [OF beats_example_well_formed]
  by (simp add: beats_example_def note_start_examples is_note_line_def startswith_def)

section \<open>The audio stage\<close>

text \<open>
  Claim C4, as the code has it.  When audio is enabled, a resource is named by the tags and
  the download fails, the stage logs its start and then the failure at level \<open>ERROR\<close>; it
  writes no \<^verbatim>\<open>#MP3\<close> header and leaves every header other than \<^verbatim>\<open>#VIDEO\<close> as it was.  The
  \<^verbatim>\<open>#VIDEO\<close> header, which carries the raw resource tags, is removed when it is present and
  not empty, whether the download succeeded or not: the last part of the statement does
  not depend on the outcome of the download.
\<close>

theorem audio_stage_failure:
  assumes "audio_options = Some audio_opts"
    and "audio_resource = (if truthy tag_audio then tag_audio else tag_video)"
    and "truthy audio_resource"
    and "audio_stage song_id audio_options tag_audio tag_video download_video filename header logged
           = (header', logged')"
  shows "(\<not> truthy (download_video (the audio_resource) audio_opts) \<longrightarrow>
            logged' = logged @ [(INFO, ''#'' @ song_id @ '': (2/6) downloading audio file...''),
                                (ERROR, ''#'' @ song_id @ '': (2/6) Failed.'')]
            \<and> header' ''#MP3'' = header ''#MP3''
            \<and> (\<forall>key. key \<noteq> ''#VIDEO'' \<longrightarrow> header' key = header key))
       \<and> header' ''#VIDEO'' = (if truthy (header ''#VIDEO'') then None else header ''#VIDEO'')"
  using assms by (auto simp: audio_stage_def Let_def split: if_splits)

theorem audio_stage_failure_witness:
  "snd (audio_stage ''42'' (Some ()) None (Some ''kijpcUv-b8M'') failing_download ''Queen - Somebody to Love''
      raw_header [])
     = [(INFO, ''#42: (2/6) downloading audio file...''), (ERROR, ''#42: (2/6) Failed.'')]
   \<and> fst (audio_stage ''42'' (Some ()) None (Some ''kijpcUv-b8M'') failing_download
        ''Queen - Somebody to Love'' raw_header []) ''#MP3'' = None
   \<and> fst (audio_stage ''42'' (Some ()) None (Some ''kijpcUv-b8M'') failing_download
        ''Queen - Somebody to Love'' raw_header []) ''#ARTIST'' = Some ''Queen''"
  using audio_stage_failure [where audio_options = "Some ()" and audio_opts = "()"
      and audio_resource = "Some ''kijpcUv-b8M''" and tag_audio = None
      and tag_video = "Some ''kijpcUv-b8M''" and download_video = failing_download
      and song_id = "''42''" and filename = "''Queen - Somebody to Love''"
      and header = raw_header and logged = "[]"
      and header' = "fst (audio_stage ''42'' (Some ()) None (Some ''kijpcUv-b8M'') failing_download
        ''Queen - Somebody to Love'' raw_header [])"
      and logged' = "snd (audio_stage ''42'' (Some ()) None (Some ''kijpcUv-b8M'') failing_download
        ''Queen - Somebody to Love'' raw_header [])"]
  by (simp add: truthy_def raw_header_def failing_download_def)

text \<open>
  The claim as worded lets no header other than \<^verbatim>\<open>#MP3\<close> change when the download fails.
  The stage removes \<^verbatim>\<open>#VIDEO\<close> all the same.
\<close>

theorem audio_stage_failure_counterexample:
  "fst (audio_stage ''42'' (Some ()) None (Some ''kijpcUv-b8M'') failing_download
        ''Queen - Somebody to Love'' raw_header []) ''#VIDEO'' = None
   \<and> raw_header ''#VIDEO'' = Some ''v=kijpcUv-b8M,co=cover.jpg''"
  by (simp add: audio_stage_def truthy_def raw_header_def failing_download_def)

section \<open>The parser of headers\<close>

lemma split_max_acc_0: "split_max_acc 0 sep cur s = [cur @ s]"
  by (induction s arbitrary: cur) auto

lemma split_max_acc_1:
  "sep \<in> set s \<Longrightarrow> split_max_acc (Suc 0) sep cur s
     = [cur @ takeWhile (\<lambda>c. c \<noteq> sep) s, tl (dropWhile (\<lambda>c. c \<noteq> sep) s)]"
  by (induction s arbitrary: cur) (auto simp: split_max_acc_0)

lemma split_max_1:
  "sep \<in> set s \<Longrightarrow> split_max sep (Suc 0) s
     = [takeWhile (\<lambda>c. c \<noteq> sep) s, tl (dropWhile (\<lambda>c. c \<noteq> sep) s)]"
  using split_max_acc_1 [of sep s "[]"] by (simp add: split_max_def)

lemma set_header_value_cases:
  "set_header_value F kw hname v =
     (if convertible F (header_key hname) v
      then Inr (if header_key hname \<in> set str_headers
                then kw\<lparr>kw_named := (kw_named kw)(header_key hname \<mapsto> StrV v)\<rparr>
                else if header_key hname \<in> set float_headers
                then kw\<lparr>kw_named := (kw_named kw)(header_key hname \<mapsto>
                          FloatV (the (float_of F (str_replace_char (CHR '','') ''.'' v))))\<rparr>
                else if header_key hname \<in> set int_headers
                then kw\<lparr>kw_named := (kw_named kw)(header_key hname \<mapsto> IntV (the (py_int v)))\<rparr>
                else kw\<lparr>kw_unknown := dict_set (kw_unknown kw) (header_key hname) v\<rparr>)
      else Inl ValueError)"
  by (auto simp: set_header_value_def convertible_def Let_def str_headers_def float_headers_def
      int_headers_def split: option.splits)

lemma headers_loop_Nil: "headers_loop F kw [] lg = (Inr kw, [], lg)"
  by (simp add: headers_loop.simps)

lemma headers_loop_Cons:
  "headers_loop F kw (l # lines) lg =
     (if \<not> startswith l ''#'' then (Inr kw, l # lines, lg)
      else if CHR '':'' \<notin> set (removeprefix ''#'' l)
      then headers_loop F kw lines
             (lg @ [Warning (''header without value: '' @ quoted (removeprefix ''#'' l))])
      else if tl (dropWhile (\<lambda>c. c \<noteq> CHR '':'') (removeprefix ''#'' l)) = []
      then headers_loop F kw lines lg
      else
        (case set_header_value F kw (takeWhile (\<lambda>c. c \<noteq> CHR '':'') (removeprefix ''#'' l))
                (tl (dropWhile (\<lambda>c. c \<noteq> CHR '':'') (removeprefix ''#'' l))) of
           Inl e \<Rightarrow> headers_loop F kw lines
                      (lg @ [Warning (''invalid header value: '' @ quoted (removeprefix ''#'' l))])
         | Inr kw' \<Rightarrow> headers_loop F kw' lines lg))"
  by (simp add: headers_loop.simps Let_def split_max_1 set_header_value_cases)

lemma headers_loop_returns: "\<exists>kw' lines' lg'. headers_loop F kw lines lg = (Inr kw', lines', lg')"
proof (induction lines arbitrary: kw lg)
  case Nil
  show ?case by (simp add: headers_loop_Nil)
next
  case (Cons l lines)
  show ?case
    by (simp add: headers_loop_Cons Cons.IH split: sum.splits)
qed

lemma has_header_Cons:
  "has_header F key (l # lines)
     = (startswith l ''#'' \<and> (gives_header F key l \<or> has_header F key lines))"
  by (simp add: has_header_def)

lemma headers_loop_named:
  assumes "headers_loop F kw lines lg = (Inr kw', lines', lg')"
    and "key \<in> set (str_headers @ float_headers @ int_headers)"
  shows "(kw_named kw' key \<noteq> None) = (kw_named kw key \<noteq> None \<or> has_header F key lines)"
  using assms(1)
proof (induction lines arbitrary: kw lg)
  case Nil
  then show ?case by (simp add: headers_loop_Nil has_header_def)
next
  case (Cons l lines)
  let ?line = "removeprefix ''#'' l"
  let ?name = "takeWhile (\<lambda>c. c \<noteq> CHR '':'') ?line"
  let ?v = "tl (dropWhile (\<lambda>c. c \<noteq> CHR '':'') ?line)"
  show ?case
  proof (cases "startswith l ''#''")
    case False
    then have "\<not> has_header F key (l # lines)" by (simp add: has_header_Cons)
    moreover from Cons.prems False have "kw' = kw" by (simp add: headers_loop_Cons)
    ultimately show ?thesis by simp
  next
    case hash: True
    show ?thesis
    proof (cases "CHR '':'' \<in> set ?line \<and> ?v \<noteq> []")
      case False
      then have "\<not> gives_header F key l" by (auto simp: gives_header_def Let_def)
      moreover from False hash Cons.prems obtain lg0 where
        "headers_loop F kw lines lg0 = (Inr kw', lines', lg')"
        by (auto simp: headers_loop_Cons split: if_splits)
      ultimately show ?thesis using Cons.IH hash by (simp add: has_header_Cons)
    next
      case True
      show ?thesis
      proof (cases "convertible F (header_key ?name) ?v")
        case False
        then have "\<not> gives_header F key l" by (auto simp: gives_header_def Let_def)
        moreover from False True hash Cons.prems obtain lg0 where
          "headers_loop F kw lines lg0 = (Inr kw', lines', lg')"
          by (auto simp: headers_loop_Cons set_header_value_cases)
        ultimately show ?thesis using Cons.IH hash by (simp add: has_header_Cons)
      next
        case conv: True
        obtain kw2 where kw2: "set_header_value F kw ?name ?v = Inr kw2"
          using conv by (simp add: set_header_value_cases)
        have g: "gives_header F key l = (header_key ?name = key)"
          using True conv by (auto simp: gives_header_def Let_def)
        have "(kw_named kw2 key \<noteq> None) = (kw_named kw key \<noteq> None \<or> header_key ?name = key)"
          using kw2 conv assms(2) by (auto simp: set_header_value_cases split: if_splits)
        moreover from True hash kw2 Cons.prems have "headers_loop F kw2 lines lg = (Inr kw', lines', lg')"
          by (simp add: headers_loop_Cons)
        ultimately show ?thesis using Cons.IH [of kw2 lg] hash g by (auto simp: has_header_Cons)
      qed
    qed
  qed
qed


lemma Headers_parse_eq:
  assumes "headers_loop F empty_kwargs lines lg = (Inr kw, lines', lg')"
  shows "Headers_parse F lines lg =
           (if has_header F ''title'' lines \<and> has_header F ''artist'' lines
            then (Inr (Headers_init F kw), lines',
                  if has_header F ''bpm'' lines then lg' else lg' @ [Warning ''missing bpm''])
            else (Inl (NotesParseError ''cannot parse song without artist and title''), lines', lg'))"
proof -
  have "(kw_named kw key \<noteq> None) = has_header F key lines"
    if "key \<in> set (str_headers @ float_headers @ int_headers)" for key
    using headers_loop_named [OF assms that] by (simp add: empty_kwargs_def)
  from this [of "''title''"] this [of "''artist''"] this [of "''bpm''"]
  have "(kw_named kw ''title'' \<noteq> None) = has_header F ''title'' lines"
    "(kw_named kw ''artist'' \<noteq> None) = has_header F ''artist'' lines"
    "(kw_named kw ''bpm'' \<noteq> None) = has_header F ''bpm'' lines"
    by (simp_all add: str_headers_def float_headers_def)
  then show ?thesis
    using assms by (auto simp: Headers_parse_def empty_kwargs_def)
qed

lemma headers_loop_no_separator:
  assumes "startswith l ''#''" "CHR '':'' \<notin> set (removeprefix ''#'' l)"
  shows "headers_loop F kw (l # rest) lg
           = headers_loop F kw rest
               (lg @ [Warning (''header without value: '' @ quoted (removeprefix ''#'' l))])"
  using assms by (simp add: headers_loop_Cons)

lemma headers_loop_bad_value:
  assumes "CHR '':'' \<notin> set hname" "v \<noteq> []" "\<not> convertible F (header_key hname) v"
  shows "headers_loop F kw ((''#'' @ hname @ '':'' @ v) # rest) lg
           = headers_loop F kw rest
               (lg @ [Warning (''invalid header value: '' @ quoted (hname @ '':'' @ v))])"
proof -
  have t: "takeWhile (\<lambda>c. c \<noteq> CHR '':'') (hname @ CHR '':'' # v) = hname"
    "dropWhile (\<lambda>c. c \<noteq> CHR '':'') (hname @ CHR '':'' # v) = CHR '':'' # v"
    using assms(1) by (induction hname) auto
  show ?thesis
    using assms by (simp add: headers_loop_Cons startswith_def removeprefix_def t
        set_header_value_cases)
qed

text \<open>
  Claim C6.  \<^verbatim>\<open>Headers.parse\<close> raises an exception if and only if the header section gives
  no title or no artist, and the exception is then the \<^verbatim>\<open>NotesParseError\<close> for a song
  without artist and title.  A header line without a separator is logged and skipped, and
  so is a line whose value fails the conversion to a number; in both cases the loop goes
  on with the next line.  When title and artist are given and the tempo is not, the parse
  succeeds and the last record of the log is the warning about the missing tempo.
\<close>

theorem headers_parse_fatal_iff:
  "((\<exists>e. fst (Headers_parse F lines lg) = Inl e)
      \<longleftrightarrow> \<not> (has_header F ''title'' lines \<and> has_header F ''artist'' lines))
   \<and> (\<forall>e. fst (Headers_parse F lines lg) = Inl e
         \<longrightarrow> e = NotesParseError ''cannot parse song without artist and title'')
   \<and> (\<forall>l kw rest. startswith l ''#'' \<and> CHR '':'' \<notin> set (removeprefix ''#'' l) \<longrightarrow>
         headers_loop F kw (l # rest) lg
           = headers_loop F kw rest
               (lg @ [Warning (''header without value: '' @ quoted (removeprefix ''#'' l))]))
   \<and> (\<forall>hname v kw rest.
         CHR '':'' \<notin> set hname \<and> v \<noteq> [] \<and> \<not> convertible F (header_key hname) v \<longrightarrow>
         headers_loop F kw ((''#'' @ hname @ '':'' @ v) # rest) lg
           = headers_loop F kw rest
               (lg @ [Warning (''invalid header value: '' @ quoted (hname @ '':'' @ v))]))
   \<and> (has_header F ''title'' lines \<and> has_header F ''artist'' lines \<and> \<not> has_header F ''bpm'' lines
         \<longrightarrow> (\<exists>kw lines' lg'. headers_loop F empty_kwargs lines lg = (Inr kw, lines', lg')
                \<and> Headers_parse F lines lg
                    = (Inr (Headers_init F kw), lines', lg' @ [Warning ''missing bpm''])))"
proof -
  obtain kw lines' lg' where loop: "headers_loop F empty_kwargs lines lg = (Inr kw, lines', lg')"
    using headers_loop_returns by blast
  note eq = Headers_parse_eq [OF loop]
  have 1: "(\<exists>e. fst (Headers_parse F lines lg) = Inl e)
      \<longleftrightarrow> \<not> (has_header F ''title'' lines \<and> has_header F ''artist'' lines)"
    by (simp add: eq)
  have 2: "\<forall>e. fst (Headers_parse F lines lg) = Inl e
         \<longrightarrow> e = NotesParseError ''cannot parse song without artist and title''"
    by (auto simp: eq split: if_splits)
  have 5: "has_header F ''title'' lines \<and> has_header F ''artist'' lines \<and> \<not> has_header F ''bpm'' lines
         \<longrightarrow> (\<exists>kw lines' lg'. headers_loop F empty_kwargs lines lg = (Inr kw, lines', lg')
                \<and> Headers_parse F lines lg
                    = (Inr (Headers_init F kw), lines', lg' @ [Warning ''missing bpm'']))"
    using loop by (simp add: eq)
  have 3: "\<forall>l kw rest. startswith l ''#'' \<and> CHR '':'' \<notin> set (removeprefix ''#'' l) \<longrightarrow>
         headers_loop F kw (l # rest) lg
           = headers_loop F kw rest
               (lg @ [Warning (''header without value: '' @ quoted (removeprefix ''#'' l))])"
    using headers_loop_no_separator by blast
  have 4: "\<forall>hname v kw rest.
         CHR '':'' \<notin> set hname \<and> v \<noteq> [] \<and> \<not> convertible F (header_key hname) v \<longrightarrow>
         headers_loop F kw ((''#'' @ hname @ '':'' @ v) # rest) lg
           = headers_loop F kw rest
               (lg @ [Warning (''invalid header value: '' @ quoted (hname @ '':'' @ v))])"
    using headers_loop_bad_value by blast
  show ?thesis
    apply (rule conjI [OF 1])
    apply (rule conjI [OF 2])
    apply (rule conjI [OF 3])
    apply (rule conjI [OF 4])
    apply (rule 5)
    done
qed


lemma header_example_parsed:
  "Headers_parse whole_floats header_example []
     = (Inr (Headers_init whole_floats
               \<lparr>kw_unknown = [],
                kw_named = [''title'' \<mapsto> StrV ''Somebody to Love'', ''artist'' \<mapsto> StrV ''Queen'']\<rparr>),
        ['': 0 2 60 Some''],
        [Warning (''header without value: '' @ quoted ''nocolon''),
         Warning (''invalid header value: '' @ quoted ''GAP:soon''),
         Warning ''missing bpm''])"
  "fst (Headers_parse whole_floats [''#TITLE:Somebody to Love'', '': 0 2 60 Some''] [])
     = Inl (NotesParseError ''cannot parse song without artist and title'')"
  "has_header whole_floats ''title'' header_example"
  "has_header whole_floats ''artist'' header_example"
  "\<not> has_header whole_floats ''bpm'' header_example"
  "\<not> has_header whole_floats ''artist'' [''#TITLE:Somebody to Love'', '': 0 2 60 Some'']"
  by code_simp+

theorem headers_parse_fatal_iff_witness:
  "Headers_parse whole_floats header_example []
     = (Inr (Headers_init whole_floats
               \<lparr>kw_unknown = [],
                kw_named = [''title'' \<mapsto> StrV ''Somebody to Love'', ''artist'' \<mapsto> StrV ''Queen'']\<rparr>),
        ['': 0 2 60 Some''],
        [Warning (''header without value: '' @ quoted ''nocolon''),
         Warning (''invalid header value: '' @ quoted ''GAP:soon''),
         Warning ''missing bpm''])
   \<and> fst (Headers_parse whole_floats [''#TITLE:Somebody to Love'', '': 0 2 60 Some''] [])
     = Inl (NotesParseError ''cannot parse song without artist and title'')"
proof -
  note good = headers_parse_fatal_iff [of whole_floats header_example "[]", THEN conjunct2,
      THEN conjunct2, THEN conjunct2, THEN conjunct2]
  note bad = headers_parse_fatal_iff [of whole_floats
      "[''#TITLE:Somebody to Love'', '': 0 2 60 Some'']" "[]", THEN conjunct1]
  from good bad header_example_parsed show ?thesis by simp
qed
section \<open>The parser of notes and lines\<close>

text \<open>
  The numbers that the patterns match are runs of digits, with a minus sign at most, and
  \<^verbatim>\<open>int\<close> converts every such text of at most \<open>MAX_STR_DIGITS\<close> digits.  So the conversions
  in \<^verbatim>\<open>_parse_line_break\<close> do not fail on a line within that limit, and \<^verbatim>\<open>Line.parse\<close> and
  \<^verbatim>\<open>_player_lines\<close> return for every list of such lines; a beat past the limit raises
  \<^verbatim>\<open>ValueError\<close>.
\<close>

subsection \<open>Numerals\<close>

lemma digit_not_int_space: "is_digit c \<Longrightarrow> \<not> is_int_space c"
  by (auto simp: is_digit_def is_int_space_def)

lemma digit_not_underscore: "is_digit c \<Longrightarrow> c \<noteq> CHR ''_''"
  by (auto simp: is_digit_def)

lemma int_strip_id:
  assumes "s \<noteq> []" "\<not> is_int_space (hd s)" "\<not> is_int_space (last s)"
  shows "rev (dropWhile is_int_space (rev (dropWhile is_int_space s))) = s"
proof -
  from assms obtain x xs where "s = x # xs" "\<not> is_int_space x" by (cases s) auto
  then have l: "dropWhile is_int_space s = s" by simp
  from assms obtain ys y where s: "s = ys @ [y]" by (cases s rule: rev_cases) auto
  with assms have "\<not> is_int_space y" by simp
  then have "dropWhile is_int_space (rev s) = rev s" by (simp add: s)
  with l show ?thesis by simp
qed

lemma digits_underscores_digits:
  "ds \<noteq> [] \<Longrightarrow> \<forall>c \<in> set ds. is_digit c \<Longrightarrow> digits_underscores ds"
  by (induction ds rule: digits_underscores.induct) (auto simp: digit_not_underscore)

lemma py_int_digits:
  assumes "ds \<noteq> []" "\<forall>c \<in> set ds. is_digit c" "length ds \<le> MAX_STR_DIGITS"
  shows "py_int ds = Some (int (digits_val ds))"
    and "py_int (CHR ''-'' # ds) = Some (- int (digits_val ds))"
proof -
  have f: "filter (\<lambda>c. c \<noteq> CHR ''_'') ds = ds"
    using assms(2) by (auto simp: filter_id_conv digit_not_underscore)
  have d: "filter is_digit ds = ds" using assms(2) by (simp add: filter_id_conv)
  have hl: "is_digit (hd ds)" "is_digit (last ds)" using assms by auto
  have s1: "rev (dropWhile is_int_space (rev (dropWhile is_int_space ds))) = ds"
    using assms hl by (intro int_strip_id) (auto dest: digit_not_int_space)
  have "\<not> is_int_space (CHR ''-'')" by (simp add: is_int_space_def)
  then have s2: "rev (dropWhile is_int_space (rev (dropWhile is_int_space (CHR ''-'' # ds))))
                   = CHR ''-'' # ds"
    using assms hl by (intro int_strip_id) (auto dest: digit_not_int_space)
  have h: "hd ds \<noteq> CHR ''-''" "hd ds \<noteq> CHR ''+''" using hl(1) by (auto simp: is_digit_def)
  show "py_int ds = Some (int (digits_val ds))"
    unfolding py_int_def s1 using assms h by (simp add: Let_def digits_underscores_digits f d)
  show "py_int (CHR ''-'' # ds) = Some (- int (digits_val ds))"
    unfolding py_int_def s2 using assms by (simp add: Let_def digits_underscores_digits f d)
qed

lemma digit_char_props: "d < 10 \<Longrightarrow> is_digit (digit_char d) \<and> digit_val (digit_char d) = d"
proof -
  assume "d < 10"
  then have "d \<in> {0, 1, 2, 3, 4, 5, 6, 7, 8, 9}" by auto
  then show ?thesis
    by (auto simp: digit_char_def is_digit_def digit_val_def)
qed

lemma digits_val_snoc: "digits_val (ds @ [c]) = 10 * digits_val ds + digit_val c"
  by (simp add: digits_val_def)

lemma nat_str_props:
  "nat_str n \<noteq> [] \<and> (\<forall>c \<in> set (nat_str n). is_digit c) \<and> digits_val (nat_str n) = n"
proof (induction n rule: nat_str.induct)
  case (1 n)
  show ?case
  proof (cases "n < 10")
    case True
    then show ?thesis
      using digit_char_props [of n] by (subst (1 2 3) nat_str.simps) (simp add: digits_val_def)
  next
    case False
    then have "n mod 10 < 10" by simp
    with False 1 digit_char_props [of "n mod 10"] show ?thesis
      by (subst (1 2 3) nat_str.simps) (auto simp: digits_val_snoc)
  qed
qed




lemma int_str_chars: "c \<in> set (int_str i) \<Longrightarrow> is_digit c \<or> c = CHR ''-''"
  using nat_str_props by (auto simp: int_str_def split: if_splits)

lemma int_str_no_newline: "CHR 0x0A \<notin> set (int_str i)"
  using int_str_chars [of "CHR 0x0A" i] by (auto simp: is_digit_def)


lemma match_nat_digits:
  "match_nat s = Some (g, r) \<Longrightarrow> g \<noteq> [] \<and> (\<forall>c \<in> set g. is_digit c) \<and> s = g @ r"
  by (cases s) (auto simp: match_nat_def split: if_splits dest: set_takeWhileD)

lemma match_int_parts:
  assumes "match_int s = Some (g, r)"
  shows "s = g @ r"
    and "g \<noteq> []"
    and "length (filter is_digit g) \<le> MAX_STR_DIGITS \<Longrightarrow> \<exists>v. py_int g = Some v"
proof -
  have "s = g @ r \<and> g \<noteq> [] \<and> (length (filter is_digit g) \<le> MAX_STR_DIGITS \<longrightarrow> (\<exists>v. py_int g = Some v))"
  proof (cases "s \<noteq> [] \<and> hd s = CHR ''-''")
    case True
    with assms obtain ds where m: "match_nat (tl s) = Some (ds, r)" and g: "g = CHR ''-'' # ds"
      by (auto simp: match_int_def)
    from match_nat_digits [OF m] have ds: "ds \<noteq> []" "\<forall>c \<in> set ds. is_digit c" "tl s = ds @ r"
      by auto
    have "filter is_digit g = ds"
      using ds(2) by (simp add: g filter_id_conv is_digit_def)
    moreover have "s = g @ r" using True ds(3) g by (cases s) auto
    ultimately show ?thesis using py_int_digits(2) [OF ds(1,2)] g by auto
  next
    case False
    with assms have m: "match_nat s = Some (g, r)" by (auto simp: match_int_def)
    from match_nat_digits [OF m] have ds: "g \<noteq> []" "\<forall>c \<in> set g. is_digit c" "s = g @ r" by auto
    have "filter is_digit g = g" using ds(2) by (simp add: filter_id_conv)
    then show ?thesis using py_int_digits(1) [OF ds(1,2)] ds by auto
  qed
  then show "s = g @ r" "g \<noteq> []"
    "length (filter is_digit g) \<le> MAX_STR_DIGITS \<Longrightarrow> \<exists>v. py_int g = Some v"
    by auto
qed

lemma match_nat_digits_then:
  assumes "ds \<noteq> []" "\<forall>c \<in> set ds. is_digit c" "r = [] \<or> \<not> is_digit (hd r)"
  shows "match_nat (ds @ r) = Some (ds, r)"
proof -
  have "takeWhile is_digit (ds @ r) = ds" "dropWhile is_digit (ds @ r) = r"
    using assms(2,3) by (induction ds) (auto simp: takeWhile_eq_Nil_iff dropWhile_eq_self_iff)
  moreover have "is_digit (hd (ds @ r))" using assms(1,2) by (cases ds) auto
  ultimately show ?thesis using assms(1) by (simp add: match_nat_def)
qed




subsection \<open>Line breaks\<close>

lemma digits_dropWhile:
  "length (filter is_digit (dropWhile P s)) \<le> length (filter is_digit s)"
proof -
  have "length (filter is_digit (takeWhile P s @ dropWhile P s))
          = length (filter is_digit (takeWhile P s)) + length (filter is_digit (dropWhile P s))"
    by (simp only: filter_append length_append)
  then show ?thesis by simp
qed

lemma digits_tl: "length (filter is_digit (tl s)) \<le> length (filter is_digit s)"
  by (cases s) auto

lemma within_limit_lstrip: "within_limit l \<Longrightarrow> within_limit (lstrip l)"
  using digits_dropWhile [of is_space l] by (simp add: within_limit_def lstrip_def)

lemma match_int_digits:
  assumes "match_int s = Some (g, r)"
  shows "length (filter is_digit g) + length (filter is_digit r) = length (filter is_digit s)"
  using match_int_parts(1) [OF assms] by simp

lemma line_break_regex_Some:
  assumes "line_break_regex v = Some (g1, g2, g3)"
  shows "\<exists>r1 r3. v \<noteq> [] \<and> hd v = CHR ''-''
           \<and> match_int (dropWhile (\<lambda>c. c = CHR '' '') (tl v)) = Some (g1, r1)
           \<and> (case g2 of
                 None \<Rightarrow> match_int (dropWhile (\<lambda>c. c = CHR '' '') r1) = None
                          \<and> r3 = dropWhile (\<lambda>c. c = CHR '' '') r1
               | Some t \<Rightarrow> match_int (dropWhile (\<lambda>c. c = CHR '' '') r1) = Some (t, r3))
           \<and> CHR 0x0A \<notin> set (dropWhile (\<lambda>c. c = CHR '' '') r3)
           \<and> g3 = (if dropWhile (\<lambda>c. c = CHR '' '') r3 = [] then None
                    else Some (dropWhile (\<lambda>c. c = CHR '' '') r3))"
proof -
  let ?sp = "dropWhile (\<lambda>c. c = CHR '' '')"
  from assms have v: "v \<noteq> []" "hd v = CHR ''-''"
    by (auto simp: line_break_regex_def split: if_splits)
  obtain r1 where m1: "match_int (?sp (tl v)) = Some (g1, r1)"
  proof (cases "match_int (?sp (tl v))")
    case None
    with assms show ?thesis by (simp add: line_break_regex_def split: if_splits)
  next
    case (Some p)
    obtain g r where p: "p = (g, r)" by (cases p)
    with Some assms have "g = g1"
      by (auto simp: line_break_regex_def Let_def split: if_splits prod.splits)
    with Some p that show ?thesis by simp
  qed
  show ?thesis
  proof (cases "match_int (?sp r1)")
    case None
    define d where "d = ?sp (?sp r1)"
    have "line_break_regex v
            = (if CHR 0x0A \<in> set d then None
               else Some (g1, None, if d = [] then None else Some d))"
      unfolding d_def using v m1 None by (simp add: line_break_regex_def Let_def)
    with assms have "CHR 0x0A \<notin> set d \<and> g2 = None \<and> g3 = (if d = [] then None else Some d)"
      by (simp split: if_splits)
    then have "CHR 0x0A \<notin> set (?sp (?sp r1))" "g2 = None"
      "g3 = (if ?sp (?sp r1) = [] then None else Some (?sp (?sp r1)))"
      unfolding d_def by blast+
    with v m1 None show ?thesis
      by (intro exI [of _ r1] exI [of _ "?sp r1"]) (simp only: option.case simp_thms)
  next
    case (Some p)
    obtain t r3 where p: "p = (t, r3)" by (cases p)
    define d where "d = ?sp r3"
    have "line_break_regex v
            = (if CHR 0x0A \<in> set d then None
               else Some (g1, Some t, if d = [] then None else Some d))"
      unfolding d_def using v m1 Some p by (simp add: line_break_regex_def Let_def)
    with assms have "CHR 0x0A \<notin> set d \<and> g2 = Some t \<and> g3 = (if d = [] then None else Some d)"
      by (simp split: if_splits)
    then have "CHR 0x0A \<notin> set (?sp r3)" "g2 = Some t"
      "g3 = (if ?sp r3 = [] then None else Some (?sp r3))"
      unfolding d_def by blast+
    with v m1 Some p show ?thesis
      by (intro exI [of _ r1] exI [of _ r3]) (simp only: option.case simp_thms)
  qed
qed

lemma line_break_regex_limit:
  assumes "line_break_regex v = Some (g1, g2, g3)" "within_limit v"
  shows "(\<exists>a. py_int g1 = Some a)"
    and "g2 = Some t \<Longrightarrow> t \<noteq> [] \<and> (\<exists>b. py_int t = Some b)"
    and "g3 = Some nl \<Longrightarrow> nl \<noteq> [] \<and> within_limit nl"
proof -
  let ?sp = "dropWhile (\<lambda>c. c = CHR '' '')"
  let ?dc = "\<lambda>s. length (filter is_digit s)"
  from line_break_regex_Some [OF assms(1)] obtain r1 r3 where
    m1: "match_int (?sp (tl v)) = Some (g1, r1)"
    and m2: "case g2 of None \<Rightarrow> match_int (?sp r1) = None \<and> r3 = ?sp r1
             | Some t \<Rightarrow> match_int (?sp r1) = Some (t, r3)"
    and g3: "g3 = (if ?sp r3 = [] then None else Some (?sp r3))"
    by blast
  have "?dc (?sp (tl v)) \<le> ?dc (tl v)" by (rule digits_dropWhile)
  also have "\<dots> \<le> ?dc v" by (rule digits_tl)
  finally have d1: "?dc g1 + ?dc r1 \<le> ?dc v" using match_int_digits [OF m1] by simp
  with assms(2) have "?dc g1 \<le> MAX_STR_DIGITS" by (simp add: within_limit_def)
  with match_int_parts(3) [OF m1] show "\<exists>a. py_int g1 = Some a" by simp
  have r1: "?dc (?sp r1) \<le> ?dc v"
    using d1 digits_dropWhile [of "\<lambda>c. c = CHR '' ''" r1] by simp
  show "t \<noteq> [] \<and> (\<exists>b. py_int t = Some b)" if "g2 = Some t"
  proof -
    from that m2 have m: "match_int (?sp r1) = Some (t, r3)" by simp
    from match_int_digits [OF m] r1 assms(2) have "?dc t \<le> MAX_STR_DIGITS"
      by (simp add: within_limit_def)
    with match_int_parts(2,3) [OF m] show ?thesis by simp
  qed
  have r3: "?dc r3 \<le> ?dc v"
  proof (cases g2)
    case None
    with m2 r1 show ?thesis by simp
  next
    case (Some t)
    with m2 have "match_int (?sp r1) = Some (t, r3)" by simp
    from match_int_digits [OF this] r1 show ?thesis by simp
  qed
  show "nl \<noteq> [] \<and> within_limit nl" if "g3 = Some nl"
  proof -
    from that g3 have nl: "nl = ?sp r3" "nl \<noteq> []" by (auto split: if_splits)
    have "?dc (?sp r3) \<le> ?dc r3" by (rule digits_dropWhile)
    with r3 assms(2) nl show ?thesis by (simp add: within_limit_def)
  qed
qed


lemma parse_line_break_error:
  "parse_line_break v = Inl e
     \<Longrightarrow> (line_break_regex v = None
            \<and> e = NotesParseError (''invalid line break: '' @ [CHR 0x27] @ v @ [CHR 0x27]))
         \<or> (line_break_regex v \<noteq> None \<and> e = ValueError)"
  by (auto simp: parse_line_break_def split: option.splits if_splits)

lemma parse_line_break_within_limit:
  assumes "within_limit v"
  shows "parse_line_break v = Inl e \<Longrightarrow> line_break_regex v = None"
    and "parse_line_break v = Inr (lb, Some nl) \<Longrightarrow> nl \<noteq> [] \<and> within_limit nl"
proof -
  show "line_break_regex v = None" if e: "parse_line_break v = Inl e"
  proof (cases "line_break_regex v")
    case (Some p)
    obtain g1 g2 g3 where p: "p = (g1, g2, g3)" by (cases p)
    from line_break_regex_limit(1,2) [OF Some [unfolded p] assms] e Some p show ?thesis
      by (cases g2) (auto simp: parse_line_break_def truthy_def)
  qed simp
  show "nl \<noteq> [] \<and> within_limit nl" if r: "parse_line_break v = Inr (lb, Some nl)"
  proof (cases "line_break_regex v")
    case None
    with r show ?thesis by (simp add: parse_line_break_def)
  next
    case (Some p)
    obtain g1 g2 g3 where p: "p = (g1, g2, g3)" by (cases p)
    from r Some p have "g3 = Some nl"
      by (auto simp: parse_line_break_def split: option.splits if_splits)
    from line_break_regex_limit(3) [OF Some [unfolded p] assms this] show ?thesis .
  qed
qed


lemma Note_parse_error:
  "Note_parse v = Inl e \<Longrightarrow> e = NotesParseError (''invalid note: '' @ [CHR 0x27] @ v @ [CHR 0x27])"
  by (auto simp: Note_parse_def split: option.splits prod.splits)


subsection \<open>Line.parse and \_player\_lines\<close>

lemma rstrip_keeps_head:
  assumes "s \<noteq> []" "\<not> is_space (hd s)"
  shows "rstrip s \<noteq> [] \<and> hd (rstrip s) = hd s"
proof -
  from assms obtain x xs where s: "s = x # xs" "\<not> is_space x" by (cases s) auto
  have "dropWhile is_space (rev xs @ [x]) = dropWhile is_space (rev xs) @ [x]"
    using s(2) by (induction "rev xs" arbitrary: xs) (auto simp: dropWhile_append3)
  then show ?thesis by (simp add: rstrip_def s)
qed

lemma dash_not_terminator:
  assumes "startswith t ''-''"
  shows "rstrip t \<notin> {''E'', ''P2''}"
proof -
  from assms obtain r where t: "t = CHR ''-'' # r" by (cases t) (auto simp: startswith_def)
  have "\<not> is_space (CHR ''-'')" by (simp add: is_space_def)
  with rstrip_keeps_head [of t] t have "hd (rstrip t) = CHR ''-''" by simp
  then show ?thesis by auto
qed


lemma line_parse_loop_value_error:
  assumes "startswith (lstrip v) ''-''" "parse_line_break (lstrip v) = Inl ValueError"
  shows "line_parse_loop ns (v # lines) lg = (Inl ValueError, lines, lg)"
  using assms dash_not_terminator [OF assms(1)]
  by (simp add: Let_def line_parse_loop.simps)


lemma line_parse_loop_limit:
  "line_parse_loop ns lines lg = (r, lines', lg') \<Longrightarrow> \<forall>l \<in> set lines. within_limit l
     \<Longrightarrow> (\<exists>line. r = Inr line) \<and> (\<forall>l \<in> set lines'. within_limit l)"
proof (induction ns lines lg rule: line_parse_loop.induct)
  case (1 ns lg)
  then show ?case by (auto simp: line_parse_loop.simps)
next
  case (2 ns l lines lg)
  from "2.prems"(2) have rest: "\<forall>l \<in> set lines. within_limit l" and l: "within_limit (lstrip l)"
    by (simp_all add: within_limit_lstrip)
  show ?case
  proof (cases "rstrip (lstrip l) \<in> {''E'', ''P2''}")
    case True
    with "2.prems"(1) rest show ?thesis by (auto simp: line_parse_loop.simps Let_def)
  next
    case notend: False
    show ?thesis
    proof (cases "startswith (lstrip l) ''-''")
      case True
      show ?thesis
      proof (cases "parse_line_break (lstrip l)")
        case (Inl e)
        from parse_line_break_within_limit(1) [OF l Inl] parse_line_break_error [OF Inl]
        obtain msg where e: "e = NotesParseError msg" by blast
        with Inl True notend "2.prems"(1) have
          "line_parse_loop ns lines (lg @ [Warning msg]) = (r, lines', lg')"
          by (simp add: line_parse_loop.simps Let_def)
        from "2.IH"(1) [OF refl notend True Inl e this rest] show ?thesis .
      next
        case (Inr p)
        obtain lb nxt where p: "p = (lb, nxt)" by (cases p)
        show ?thesis
        proof (cases nxt)
          case None
          with Inr p True notend "2.prems"(1) rest show ?thesis
            by (auto simp: line_parse_loop.simps Let_def truthy_def)
        next
          case (Some nl)
          from parse_line_break_within_limit(2) [OF l Inr [unfolded p Some]]
          have "nl \<noteq> []" "within_limit nl" by simp_all
          with Inr p Some True notend "2.prems"(1) rest show ?thesis
            by (auto simp: line_parse_loop.simps Let_def truthy_def)
        qed
      qed
    next
      case False
      show ?thesis
      proof (cases "Note_parse (lstrip l)")
        case (Inl e)
        from Note_parse_error [OF Inl] obtain msg where e: "e = NotesParseError msg" by blast
        with Inl False notend "2.prems"(1) have
          "line_parse_loop ns lines (lg @ [Warning msg]) = (r, lines', lg')"
          by (simp add: line_parse_loop.simps Let_def)
        from "2.IH"(2) [OF refl notend False Inl e this rest] show ?thesis .
      next
        case (Inr n)
        with False notend "2.prems"(1) have
          "line_parse_loop (ns @ [n]) lines lg = (r, lines', lg')"
          by (simp add: line_parse_loop.simps Let_def)
        from "2.IH"(3) [OF refl notend False Inr this rest] show ?thesis .
      qed
    qed
  qed
qed

lemma line_parse_loop_error:
  "line_parse_loop ns lines lg = (Inl e, lines', lg') \<Longrightarrow> e = ValueError"
proof (induction ns lines lg rule: line_parse_loop.induct)
  case (1 ns lg)
  then show ?case by (simp add: line_parse_loop.simps)
next
  case (2 ns l lines lg)
  show ?case
  proof (cases "rstrip (lstrip l) \<in> {''E'', ''P2''}")
    case True
    with "2.prems" show ?thesis by (auto simp: line_parse_loop.simps Let_def)
  next
    case notend: False
    show ?thesis
    proof (cases "startswith (lstrip l) ''-''")
      case True
      show ?thesis
      proof (cases "parse_line_break (lstrip l)")
        case (Inl e')
        from parse_line_break_error [OF Inl] consider
          msg where "e' = NotesParseError msg" | "e' = ValueError" by blast
        then show ?thesis
        proof cases
          case 1
          with Inl True notend "2.prems" have
            "line_parse_loop ns lines (lg @ [Warning msg]) = (Inl e, lines', lg')"
            by (simp add: line_parse_loop.simps Let_def)
          from "2.IH"(1) [OF refl notend True Inl 1 this] show ?thesis .
        next
          case 2
          with Inl True notend "2.prems" show ?thesis
            by (simp add: line_parse_loop.simps Let_def)
        qed
      next
        case (Inr p)
        with True notend "2.prems" show ?thesis
          by (cases p) (simp add: line_parse_loop.simps Let_def)
      qed
    next
      case False
      show ?thesis
      proof (cases "Note_parse (lstrip l)")
        case (Inl e')
        from Note_parse_error [OF Inl] obtain msg where e': "e' = NotesParseError msg" by blast
        with Inl False notend "2.prems" have
          "line_parse_loop ns lines (lg @ [Warning msg]) = (Inl e, lines', lg')"
          by (simp add: line_parse_loop.simps Let_def)
        from "2.IH"(2) [OF refl notend False Inl e' this] show ?thesis .
      next
        case (Inr n)
        with False notend "2.prems" have
          "line_parse_loop (ns @ [n]) lines lg = (Inl e, lines', lg')"
          by (simp add: line_parse_loop.simps Let_def)
        from "2.IH"(3) [OF refl notend False Inr this] show ?thesis .
      qed
    qed
  qed
qed

lemma player_lines_loop_limit:
  "\<forall>l \<in> set lines. within_limit l
     \<Longrightarrow> \<exists>ns' lines' lg'. player_lines_loop ns lines lg = (Inr ns', lines', lg')
            \<and> (\<forall>l \<in> set lines'. within_limit l)"
proof (induction ns lines lg rule: player_lines_loop.induct)
  case (1 ns lines lg)
  show ?case
  proof (cases "lines = []")
    case True
    then show ?thesis by (subst player_lines_loop.simps) simp
  next
    case False
    obtain r lines' lg' where lp: "line_parse_loop [] lines lg = (r, lines', lg')"
      by (cases "line_parse_loop [] lines lg") auto
    from line_parse_loop_limit [OF lp "1.prems"] obtain line where
      r: "r = Inr line" and rest: "\<forall>l \<in> set lines'. within_limit l" by blast
    from lp r have lp': "Line_parse lines lg = (Inr line, lines', lg')"
      by (simp add: Line_parse_def)
    show ?thesis
    proof (cases "is_last line")
      case True
      with False lp' rest show ?thesis by (subst player_lines_loop.simps) simp
    next
      case notlast: False
      from "1.IH" [OF False lp' [symmetric] refl refl refl notlast rest] False lp' notlast
      show ?thesis by (subst player_lines_loop.simps) (simp add: Let_def)
    qed
  qed
qed

lemma player_lines_loop_error:
  "player_lines_loop ns lines lg = (Inl e, lines', lg') \<Longrightarrow> e = ValueError"
proof (induction ns lines lg rule: player_lines_loop.induct)
  case (1 ns lines lg)
  show ?case
  proof (cases "lines = []")
    case True
    with "1.prems" show ?thesis by (subst (asm) player_lines_loop.simps) simp
  next
    case False
    obtain r lines1 lg1 where lp: "Line_parse lines lg = (r, lines1, lg1)"
      by (cases "Line_parse lines lg") auto
    show ?thesis
    proof (cases r)
      case (Inl e')
      with lp False "1.prems" have "e' = e" by (subst (asm) player_lines_loop.simps) simp
      with lp Inl line_parse_loop_error show ?thesis by (auto simp: Line_parse_def)
    next
      case (Inr line)
      show ?thesis
      proof (cases "is_last line")
        case True
        with False lp Inr "1.prems" show ?thesis
          by (subst (asm) player_lines_loop.simps) simp
      next
        case notlast: False
        with False lp Inr "1.prems" have
          "player_lines_loop (if Line.notes line \<noteq> [] then ns @ [line] else ns) lines1 lg1
             = (Inl e, lines', lg')"
          by (subst (asm) player_lines_loop.simps) (simp add: Let_def)
        from "1.IH" [OF False lp [unfolded Inr, symmetric] refl refl refl notlast this]
        show ?thesis .
      qed
    qed
  qed
qed

lemma player_lines_last:
  "player_lines lines lg = (Inr ns, lines', lg') \<Longrightarrow> ns \<noteq> [] \<Longrightarrow> line_break (last ns) = None"
  by (auto simp: player_lines_def split: prod.splits sum.splits if_splits)

lemma within_limit_tl:
  "\<forall>l \<in> set lines. within_limit l
     \<Longrightarrow> \<forall>l \<in> set (if lines \<noteq> [] \<and> startswith (hd lines) ''P'' then tl lines else lines).
           within_limit l"
  by (cases lines) auto

lemma player_lines_limit:
  assumes "\<forall>l \<in> set lines. within_limit l"
  shows "\<exists>ns lines' lg'. player_lines lines lg = (Inr ns, lines', lg')
            \<and> (\<forall>l \<in> set lines'. within_limit l)"
proof -
  from player_lines_loop_limit [OF within_limit_tl [OF assms]] obtain ns' lines' lg' where
    "player_lines_loop []
       (if lines \<noteq> [] \<and> startswith (hd lines) ''P'' then tl lines else lines) lg
       = (Inr ns', lines', lg')" "\<forall>l \<in> set lines'. within_limit l"
    by blast
  then show ?thesis by (simp add: player_lines_def)
qed

lemma player_lines_error:
  "player_lines lines lg = (Inl e, lines', lg') \<Longrightarrow> e = ValueError"
  by (auto simp: player_lines_def split: prod.splits sum.splits dest: player_lines_loop_error)

lemma PlayerNotes_parse_last:
  assumes "PlayerNotes_parse lines lg = (Inr pn, lines', lg')"
  shows "(player_1 pn \<noteq> [] \<longrightarrow> line_break (last (player_1 pn)) = None)
       \<and> (\<forall>second. player_2 pn = Some second \<longrightarrow> second \<noteq> [] \<and> line_break (last second) = None)"
proof -
  from assms obtain player1 lines1 lg1 player2 where
    one: "player_lines lines lg = (Inr player1, lines1, lg1)"
    and two: "player_lines lines1 lg1 = (Inr player2, lines', lg')"
    and pn: "pn = \<lparr>player_1 = player1, player_2 = (if player2 \<noteq> [] then Some player2 else None)\<rparr>"
    by (auto simp: PlayerNotes_parse_def split: prod.splits sum.splits)
  from player_lines_last [OF one] player_lines_last [OF two] pn show ?thesis
    by (auto split: if_splits)
qed

lemma PlayerNotes_parse_limit:
  assumes "\<forall>l \<in> set lines. within_limit l"
  shows "\<exists>pn lines' lg'. PlayerNotes_parse lines lg = (Inr pn, lines', lg')"
proof -
  from player_lines_limit [OF assms] obtain player1 lines1 lg1 where
    one: "player_lines lines lg = (Inr player1, lines1, lg1)" "\<forall>l \<in> set lines1. within_limit l"
    by blast
  from player_lines_limit [OF one(2)] obtain player2 lines2 lg2 where
    "player_lines lines1 lg1 = (Inr player2, lines2, lg2)" by blast
  with one(1) show ?thesis by (simp add: PlayerNotes_parse_def)
qed

lemma PlayerNotes_parse_error:
  "PlayerNotes_parse lines lg = (Inl e, lines', lg') \<Longrightarrow> e = ValueError"
  by (auto simp: PlayerNotes_parse_def split: prod.splits sum.splits dest: player_lines_error)


subsection \<open>Records with text after the beats\<close>




lemma line_break_regex_eq:
  assumes "match_int (dropWhile (\<lambda>c. c = CHR '' '') w) = Some (g1, r1)"
    and "(case match_int (dropWhile (\<lambda>c. c = CHR '' '') r1) of
            None \<Rightarrow> (None, dropWhile (\<lambda>c. c = CHR '' '') r1)
          | Some (g, r) \<Rightarrow> (Some g, r)) = (g2, r3)"
    and "dropWhile (\<lambda>c. c = CHR '' '') r3 = r4"
    and "CHR 0x0A \<notin> set r4"
  shows "line_break_regex (CHR ''-'' # w) = Some (g1, g2, if r4 = [] then None else Some r4)"
  unfolding line_break_regex_def using assms(3,4)
  by (simp only: list.sel assms(1,2) Let_def option.case prod.case) simp








lemma long_beat_value_error:
  assumes "MAX_STR_DIGITS < n"
  shows "parse_line_break (''- '' @ replicate n (CHR ''1'')) = Inl ValueError"
proof -
  let ?ds = "replicate n (CHR ''1'')"
  have d: "is_digit (CHR ''1'')" by (simp add: is_digit_def)
  have n: "0 < n" using assms by simp
  then have "match_nat (?ds @ []) = Some (?ds, [])"
    using d by (intro match_nat_digits_then) auto
  moreover have "hd ?ds = CHR ''1''" "?ds \<noteq> []" using n by simp_all
  ultimately have m: "match_int ?ds = Some (?ds, [])" by (simp add: match_int_def)
  have "match_int (dropWhile (\<lambda>c. c = CHR '' '') (CHR '' '' # ?ds)) = Some (?ds, [])"
    using m n by (cases n) simp_all
  moreover have "(case match_int (dropWhile (\<lambda>c. c = CHR '' '') []) of
                    None \<Rightarrow> (None, dropWhile (\<lambda>c. c = CHR '' '') [])
                  | Some (g, r) \<Rightarrow> (Some g, r)) = (None, [])"
    by (simp add: match_int_def match_nat_def)
  ultimately have "line_break_regex (CHR ''-'' # CHR '' '' # ?ds)
                     = Some (?ds, None, if [] = ([] :: string) then None else Some [])"
    by (rule line_break_regex_eq) simp_all
  then have r: "line_break_regex (''- '' @ ?ds) = Some (?ds, None, None)" by simp
  have "\<not> is_int_space (CHR ''1'')" by (simp add: is_int_space_def)
  then have "rev (dropWhile is_int_space (rev (dropWhile is_int_space ?ds))) = ?ds"
    using n by (intro int_strip_id) simp_all
  then have "py_int ?ds = None"
    using assms n d unfolding py_int_def by (simp add: Let_def)
  with r show ?thesis by (simp add: parse_line_break_def truthy_def)
qed






text \<open>
  Claim C7.  Every sequence of lines that \<^verbatim>\<open>_player_lines\<close> returns has no line break on its
  last line, if there is any; and in every result of \<^verbatim>\<open>PlayerNotes.parse\<close> this holds of the
  first player, and of the second player if there is one.  Both functions return for
  every list of lines in which no line has more digits than \<^verbatim>\<open>int\<close> converts; for any
  other input they return as well or raise \<^verbatim>\<open>ValueError\<close>, from the beat of a line break.
  The witness is an input with a line break before the end marker.
\<close>

theorem player_lines_terminal_break:
  "(\<forall>ns lines' lg'. player_lines lines lg = (Inr ns, lines', lg') \<and> ns \<noteq> []
       \<longrightarrow> line_break (last ns) = None)
   \<and> (\<forall>pn lines' lg'. PlayerNotes_parse lines lg = (Inr pn, lines', lg')
       \<longrightarrow> (player_1 pn \<noteq> [] \<longrightarrow> line_break (last (player_1 pn)) = None)
         \<and> (\<forall>second. player_2 pn = Some second
               \<longrightarrow> second \<noteq> [] \<and> line_break (last second) = None))
   \<and> ((\<forall>l \<in> set lines. within_limit l)
       \<longrightarrow> (\<exists>ns lines' lg'. player_lines lines lg = (Inr ns, lines', lg'))
         \<and> (\<exists>pn lines' lg'. PlayerNotes_parse lines lg = (Inr pn, lines', lg')))
   \<and> (\<forall>e lines' lg'. player_lines lines lg = (Inl e, lines', lg')
          \<or> PlayerNotes_parse lines lg = (Inl e, lines', lg') \<longrightarrow> e = ValueError)"
proof (intro conjI allI impI)
  fix ns lines' lg'
  assume "player_lines lines lg = (Inr ns, lines', lg') \<and> ns \<noteq> []"
  then show "line_break (last ns) = None" using player_lines_last by blast
next
  fix pn lines' lg'
  assume pn: "PlayerNotes_parse lines lg = (Inr pn, lines', lg')"
  {
    assume "player_1 pn \<noteq> []"
    with PlayerNotes_parse_last [OF pn] show "line_break (last (player_1 pn)) = None" by blast
  }
  fix second
  assume "player_2 pn = Some second"
  with PlayerNotes_parse_last [OF pn] show "second \<noteq> []" "line_break (last second) = None"
    by blast+
next
  assume a: "\<forall>l \<in> set lines. within_limit l"
  from player_lines_limit [OF a]
  show "\<exists>ns lines' lg'. player_lines lines lg = (Inr ns, lines', lg')" by blast
  from PlayerNotes_parse_limit [OF a]
  show "\<exists>pn lines' lg'. PlayerNotes_parse lines lg = (Inr pn, lines', lg')" .
next
  fix e lines' lg'
  assume "player_lines lines lg = (Inl e, lines', lg')
          \<or> PlayerNotes_parse lines lg = (Inl e, lines', lg')"
  then show "e = ValueError" using player_lines_error PlayerNotes_parse_error by blast
qed

lemma trailing_break_example_lines:
  "player_lines trailing_break_example []
     = (Inr [\<lparr>Line.notes = [\<lparr>kind = REGULAR, start = 0, duration = 2, pitch = 60, text = ''Some''\<rparr>,
                        \<lparr>kind = REGULAR, start = 4, duration = 2, pitch = 62, text = ''bo''\<rparr>],
              line_break = None\<rparr>], [], [])"
  by code_simp

lemma trailing_break_example_notes:
  "PlayerNotes_parse trailing_break_example []
     = (Inr \<lparr>player_1 =
               [\<lparr>Line.notes = [\<lparr>kind = REGULAR, start = 0, duration = 2, pitch = 60, text = ''Some''\<rparr>,
                           \<lparr>kind = REGULAR, start = 4, duration = 2, pitch = 62, text = ''bo''\<rparr>],
                 line_break = None\<rparr>],
             player_2 = None\<rparr>, [], [])"
  by code_simp

lemma trailing_break_example_loop:
  "player_lines_loop [] trailing_break_example []
     = (Inr [\<lparr>Line.notes = [\<lparr>kind = REGULAR, start = 0, duration = 2, pitch = 60, text = ''Some''\<rparr>,
                        \<lparr>kind = REGULAR, start = 4, duration = 2, pitch = 62, text = ''bo''\<rparr>],
              line_break = Some (Beat 8)\<rparr>], [], [])"
  by code_simp

lemma trailing_break_example_limit: "list_all within_limit trailing_break_example"
  by (simp add: trailing_break_example_def within_limit_def MAX_STR_DIGITS_def is_digit_def)

theorem player_lines_terminal_break_witness:
  "player_lines trailing_break_example []
     = (Inr [\<lparr>Line.notes = [\<lparr>kind = REGULAR, start = 0, duration = 2, pitch = 60, text = ''Some''\<rparr>,
                        \<lparr>kind = REGULAR, start = 4, duration = 2, pitch = 62, text = ''bo''\<rparr>],
              line_break = None\<rparr>], [], [])
   \<and> PlayerNotes_parse trailing_break_example []
     = (Inr \<lparr>player_1 =
               [\<lparr>Line.notes = [\<lparr>kind = REGULAR, start = 0, duration = 2, pitch = 60, text = ''Some''\<rparr>,
                           \<lparr>kind = REGULAR, start = 4, duration = 2, pitch = 62, text = ''bo''\<rparr>],
                 line_break = None\<rparr>],
             player_2 = None\<rparr>, [], [])"
  using player_lines_terminal_break [of trailing_break_example "[]"]
    trailing_break_example_lines trailing_break_example_notes
    trailing_break_example_limit [unfolded list_all_iff]
  by simp

end
